theory Spec2Isabelle
  imports Complex_Main "HOL-Library.Word"
begin

section \<open>Typed CRF: schema, offsets, validators and unary potentials\<close>

text \<open>
  A shallow embedding of \<^verbatim>\<open>pystruct/models/typed_crf.py\<close> (class \<^verbatim>\<open>TypedCRF\<close>).
  Conventions of the embedding:
  \<^item> counts (\<^verbatim>\<open>n_types\<close>, states and features per type) are \<open>nat\<close>; labels and node
    indices, which the code compares with 0, are \<open>int\<close>;
  \<^item> the floating point entries of feature tables, weights and class weights are \<open>real\<close>:
    arithmetic is exact, only the indexing of the code is at stake;
  \<^item> a 2-dimensional NumPy array is its second shape component with its list of rows (its
    first shape component is the number of rows); node feature tables are such arrays or
    \<^verbatim>\<open>None\<close>; an edge table is a 1- or 2-dimensional integer array or \<^verbatim>\<open>None\<close>;
  \<^item> every \<^verbatim>\<open>raise\<close> of the source, and every exception of the Python and NumPy
    operations it calls, is a value of \<open>error\<close>;
  \<^item> the source targets Python 2 (see \<^verbatim>\<open>setup.py\<close>): \<^verbatim>\<open>raise StopIteration\<close> ends the
    generator \<^verbatim>\<open>_iter_type_pairs\<close>, and storing a Python integer into a \<^verbatim>\<open>uint32\<close> array
    keeps its low 32 bits.
\<close>

subsection \<open>Errors\<close>

text \<open>One constructor per message of the source, with the values formatted into it.\<close>

datatype message =
    ExpectedStatesPerType
  | ExpectedFeaturesPerType
  | ExpectedClassWeightList
  | ExpectedClassWeightPerState nat
  | NeedArrayToConcatenate
  | ExpectedNodeFeatureArrays
  | ExpectedFeatures nat nat
  | Expected2Dimensions
  | Expected2Columns
  | NegativeNodeIndex nat nat
  | StartsFromNonExisting nat nat
  | PointsToNonExisting nat nat
  | ExpectedLabels nat nat
  | NegativeLabel nat
  | ZeroSizeReduction
  | LabelsStartAt nat nat
  | LabelsEndAt nat int
  | WrongShapeW nat nat
  | CannotReshape
  | ShapesNotAligned

datatype error =
    ValueError message
  | InconsistentLabel message
  | TypeError
  | AttributeError
  | IndexError
  | AssertionError

subsection \<open>Arrays and instances\<close>

datatype 'a array2 = Array2 (n_cols: nat) (rows: "'a list list")

definition shape0 :: "'a array2 \<Rightarrow> nat" where
  "shape0 a = length (rows a)"

definition wf_array2 :: "'a array2 \<Rightarrow> bool" where
  "wf_array2 a = list_all (\<lambda>r. length r = n_cols a) (rows a)"

datatype edge_array = Edges1 "int list" | Edges2 "int array2"

fun ndim :: "edge_array \<Rightarrow> nat" where
  "ndim (Edges1 _) = 1"
| "ndim (Edges2 _) = 2"

fun len_edges :: "edge_array \<Rightarrow> nat" where
  "len_edges (Edges1 xs) = length xs"
| "len_edges (Edges2 a) = shape0 a"

text \<open>An instance \<^verbatim>\<open>x\<close>: \<^verbatim>\<open>x[0]\<close> the node feature tables, \<^verbatim>\<open>x[1]\<close> the edge tables.\<close>

record typed_graph =
  x0 :: "real array2 option list"
  x1 :: "edge_array option list"

subsection \<open>The schema: \<^verbatim>\<open>TypedCRF.__init__\<close>\<close>

record typed_crf =
  n_types :: nat
  l_n_states :: "nat list"
  n_states :: nat
  l_n_features :: "nat list"
  n_features :: nat
  l_n_edge_states :: "nat list"
  l_class_weight :: "real list list"
  class_weight :: "real list"
  size_unaries :: nat
  size_joint_feature :: nat
  l_type_startindex :: "nat list"
  a_feature_slice_by_typ :: "(nat \<times> nat) list"
  a_startindex_by_typ_typ :: "32 word list list"

text \<open>\<^verbatim>\<open>np.ones(n)\<close> and \<^verbatim>\<open>np.hstack\<close>, which refuses an empty sequence of arrays.\<close>

definition np_ones :: "nat \<Rightarrow> real list" where
  "np_ones n = replicate n 1"

definition np_hstack :: "real list list \<Rightarrow> error + real list" where
  "np_hstack arrays = (if arrays = [] then Inl (ValueError NeedArrayToConcatenate) else Inr (concat arrays))"

text \<open>The loop of lines 77-79 over \<^verbatim>\<open>enumerate(self.l_n_states)\<close>.\<close>

fun check_class_weight :: "real list list \<Rightarrow> (nat \<times> nat) list \<Rightarrow> error option" where
  "check_class_weight cws [] = None"
| "check_class_weight cws ((i, n) # rest) =
     (if length (cws ! i) \<noteq> n then Some (ValueError (ExpectedClassWeightPerState i))
      else check_class_weight cws rest)"

text \<open>Lines 74-84. \<^verbatim>\<open>if l_class_weight:\<close> is false for \<^verbatim>\<open>None\<close> and for an empty list.\<close>

definition get_l_class_weight :: "nat \<Rightarrow> nat list \<Rightarrow> real list list option \<Rightarrow> error + real list list" where
  "get_l_class_weight n sts lcw =
     (case lcw of
        None \<Rightarrow> Inr (map np_ones sts)
      | Some cws \<Rightarrow>
          if cws = [] then Inr (map np_ones sts)
          else if length cws \<noteq> n then Inl (ValueError ExpectedClassWeightList)
          else (case check_class_weight cws (enumerate 0 sts) of
                  Some e \<Rightarrow> Inl e
                | None \<Rightarrow> Inr cws))"

text \<open>Lines 106-111: the matrix of zeros, filled by the two nested loops with the running
  \<^verbatim>\<open>i_state_start\<close>; the store into the \<^verbatim>\<open>uint32\<close> matrix is \<open>of_nat\<close>.\<close>

fun fill_row :: "nat \<Rightarrow> nat \<Rightarrow> (nat \<times> nat) list \<Rightarrow> 32 word list list \<times> nat \<Rightarrow> 32 word list list \<times> nat" where
  "fill_row typ1 n1 [] (a, i) = (a, i)"
| "fill_row typ1 n1 ((typ2, n2) # rest) (a, i) =
     fill_row typ1 n1 rest (a[typ1 := (a ! typ1)[typ2 := of_nat i]], i + n1 * n2)"

fun fill_rows :: "nat list \<Rightarrow> (nat \<times> nat) list \<Rightarrow> 32 word list list \<times> nat \<Rightarrow> 32 word list list \<times> nat" where
  "fill_rows sts [] st = st"
| "fill_rows sts ((typ1, n1) # rest) st = fill_rows sts rest (fill_row typ1 n1 (enumerate 0 sts) st)"

definition startindex_by_typ_typ :: "nat \<Rightarrow> nat list \<Rightarrow> 32 word list list" where
  "startindex_by_typ_typ n sts = fst (fill_rows sts (enumerate 0 sts) (replicate n (replicate n 0), 0))"

text \<open>Line 145, \<^verbatim>\<open>_set_size_joint_feature\<close>.\<close>

definition set_size_joint_feature :: "nat list \<Rightarrow> nat list \<Rightarrow> nat" where
  "set_size_joint_feature sts fts = sum_list (map (\<lambda>(n_st, n_ft). n_st * n_ft) (zip sts fts))"

text \<open>The constructor, lines 56-111. \<^verbatim>\<open>l_n_features\<close> may be \<^verbatim>\<open>None\<close>: the length check
  is skipped then, and \<^verbatim>\<open>sum(None)\<close> raises \<^verbatim>\<open>TypeError\<close>. Lines 47-54 (the constructor of the
  base class and the choice of the inference method) set nothing the schema reads and are left
  out.\<close>

definition TypedCRF_init ::
  "nat \<Rightarrow> nat list \<Rightarrow> nat list option \<Rightarrow> real list list option \<Rightarrow> error + typed_crf" where
  "TypedCRF_init n sts fts_opt lcw =
     (if length sts \<noteq> n then Inl (ValueError ExpectedStatesPerType)
      else if (case fts_opt of None \<Rightarrow> False | Some fts \<Rightarrow> length fts \<noteq> n)
        then Inl (ValueError ExpectedFeaturesPerType)
      else (case fts_opt of
        None \<Rightarrow> Inl TypeError
      | Some fts \<Rightarrow>
         (case get_l_class_weight n sts lcw of
            Inl e \<Rightarrow> Inl e
          | Inr cws \<Rightarrow>
             (case np_hstack cws of
                Inl e \<Rightarrow> Inl e
              | Inr cw \<Rightarrow> Inr \<lparr>
                  n_types = n,
                  l_n_states = sts,
                  n_states = sum_list sts,
                  l_n_features = fts,
                  n_features = sum_list fts,
                  l_n_edge_states = concat (map (\<lambda>n1. map (\<lambda>n2. n1 * n2) sts) sts),
                  l_class_weight = cws,
                  class_weight = cw,
                  size_unaries = set_size_joint_feature sts fts,
                  size_joint_feature = set_size_joint_feature sts fts,
                  l_type_startindex = map (\<lambda>i. sum_list (take i sts)) [0..<n + 1],
                  a_feature_slice_by_typ =
                    map (\<lambda>i. (sum_list (take i fts), sum_list (take (i + 1) fts))) [0..<n],
                  a_startindex_by_typ_typ = startindex_by_typ_typ n sts \<rparr>))))"

subsection \<open>Sequencing of fallible steps\<close>

definition bind_err :: "error + 'a \<Rightarrow> ('a \<Rightarrow> error + 'b) \<Rightarrow> error + 'b" where
  "bind_err m f = (case m of Inl e \<Rightarrow> Inl e | Inr v \<Rightarrow> f v)"

subsection \<open>Accessors of an instance\<close>

text \<open>\<^verbatim>\<open>_get_node_features(x, True)\<close>: \<^verbatim>\<open>None\<close> becomes an empty table of the type's width;
  \<^verbatim>\<open>zip\<close> stops at the shorter of \<^verbatim>\<open>x[0]\<close> and \<^verbatim>\<open>l_n_features\<close>. With \<^verbatim>\<open>bClean=False\<close>
  the method returns \<^verbatim>\<open>x[0]\<close> as it is, which is \<open>x0 x\<close>.\<close>

definition get_node_features_clean :: "typed_crf \<Rightarrow> typed_graph \<Rightarrow> real array2 list" where
  "get_node_features_clean s x =
     map (\<lambda>(node_features, n_feat). case node_features of None \<Rightarrow> Array2 n_feat [] | Some a \<Rightarrow> a)
       (zip (x0 x) (l_n_features s))"

text \<open>\<^verbatim>\<open>_get_edges_by_type\<close>: \<^verbatim>\<open>x[1][typ1*self.n_types+typ2]\<close>.\<close>

definition get_edges_by_type :: "typed_crf \<Rightarrow> typed_graph \<Rightarrow> nat \<Rightarrow> nat \<Rightarrow> error + edge_array option" where
  "get_edges_by_type s x typ1 typ2 =
     (if typ1 * n_types s + typ2 < length (x1 x) then Inr (x1 x ! (typ1 * n_types s + typ2))
      else Inl IndexError)"

text \<open>\<^verbatim>\<open>_iter_type_pairs\<close>: the pairs the generator yields, in order.\<close>

definition iter_type_pairs :: "typed_crf \<Rightarrow> (nat \<times> nat) list" where
  "iter_type_pairs s = concat (map (\<lambda>typ1. map (\<lambda>typ2. (typ1, typ2)) [0..<n_types s]) [0..<n_types s])"

subsection \<open>\<^verbatim>\<open>_check_size_x\<close>\<close>

text \<open>Lines 159-161. \<^verbatim>\<open>typ_features.shape\<close> of \<^verbatim>\<open>None\<close> raises \<^verbatim>\<open>AttributeError\<close>.\<close>

fun check_features :: "typed_crf \<Rightarrow> (nat \<times> real array2 option) list \<Rightarrow> error + unit" where
  "check_features s [] = Inr ()"
| "check_features s ((typ, typ_features) # rest) =
     (case typ_features of
        None \<Rightarrow> Inl AttributeError
      | Some a \<Rightarrow>
          if n_cols a \<noteq> l_n_features s ! typ
          then Inl (ValueError (ExpectedFeatures (l_n_features s ! typ) typ))
          else check_features s rest)"

text \<open>Lines 165-170: every edge table that is not \<^verbatim>\<open>None\<close> is checked, empty or not.\<close>

fun check_edges_shape :: "edge_array option list \<Rightarrow> error + unit" where
  "check_edges_shape [] = Inr ()"
| "check_edges_shape (None # rest) = check_edges_shape rest"
| "check_edges_shape (Some edges # rest) =
     (if ndim edges \<noteq> 2 then Inl (ValueError Expected2Dimensions)
      else (case edges of
              Edges1 _ \<Rightarrow> Inl IndexError
            | Edges2 a \<Rightarrow>
                if n_cols a \<noteq> 2 then Inl (ValueError Expected2Columns)
                else check_edges_shape rest))"

text \<open>\<^verbatim>\<open>edges[:,j]\<close>; the minimum and the maximum of a sequence, which Python's \<^verbatim>\<open>min\<close> and
  \<^verbatim>\<open>max\<close> and NumPy's \<^verbatim>\<open>np.min\<close> and \<^verbatim>\<open>np.max\<close> compute alike and all refuse, with
  \<^verbatim>\<open>ValueError\<close>, for an empty sequence; and \<^verbatim>\<open>l_node_features[typ].shape[0]\<close> on the tables as
  given.\<close>

definition column :: "nat \<Rightarrow> edge_array \<Rightarrow> error + int list" where
  "column j edges =
     (case edges of
        Edges1 _ \<Rightarrow> Inl IndexError
      | Edges2 a \<Rightarrow> if j < n_cols a then Inr (map (\<lambda>r. r ! j) (rows a)) else Inl IndexError)"

definition py_min :: "int list \<Rightarrow> error + int" where
  "py_min xs = (case xs of [] \<Rightarrow> Inl (ValueError ZeroSizeReduction) | y # ys \<Rightarrow> Inr (fold min ys y))"

definition py_max :: "int list \<Rightarrow> error + int" where
  "py_max xs = (case xs of [] \<Rightarrow> Inl (ValueError ZeroSizeReduction) | y # ys \<Rightarrow> Inr (fold max ys y))"

definition node_count :: "typed_graph \<Rightarrow> nat \<Rightarrow> error + nat" where
  "node_count x typ =
     (if typ < length (x0 x)
      then (case x0 x ! typ of None \<Rightarrow> Inl AttributeError | Some a \<Rightarrow> Inr (shape0 a))
      else Inl IndexError)"

text \<open>The body of the loop of lines 172-183 for one type pair.\<close>

definition check_type_pair :: "typed_crf \<Rightarrow> typed_graph \<Rightarrow> nat \<times> nat \<Rightarrow> error + unit" where
  "check_type_pair s x p =
     (case p of (typ1, typ2) \<Rightarrow>
      bind_err (get_edges_by_type s x typ1 typ2) (\<lambda>edges_opt.
        case edges_opt of
          None \<Rightarrow> Inr ()
        | Some edges \<Rightarrow>
            if len_edges edges = 0 then Inr ()
            else
              bind_err (column 0 edges) (\<lambda>nodes1.
              bind_err (column 1 edges) (\<lambda>nodes2.
              bind_err (py_min nodes1) (\<lambda>min1.
              bind_err (if min1 < 0 then Inr True else bind_err (py_min nodes2) (\<lambda>min2. Inr (min2 < 0)))
                (\<lambda>negative.
              if negative then Inl (ValueError (NegativeNodeIndex typ1 typ2))
              else
                bind_err (py_max nodes1) (\<lambda>max1.
                bind_err (node_count x typ1) (\<lambda>count1.
                if max1 \<ge> int count1 then Inl (ValueError (StartsFromNonExisting typ1 typ2))
                else
                  bind_err (py_max nodes2) (\<lambda>max2.
                  bind_err (node_count x typ2) (\<lambda>count2.
                  if max2 \<ge> int count2 then Inl (ValueError (PointsToNonExisting typ1 typ2))
                  else Inr ()))))))))))"

fun check_type_pairs :: "typed_crf \<Rightarrow> typed_graph \<Rightarrow> (nat \<times> nat) list \<Rightarrow> error + unit" where
  "check_type_pairs s x [] = Inr ()"
| "check_type_pairs s x (p # ps) = bind_err (check_type_pair s x p) (\<lambda>_. check_type_pairs s x ps)"

definition check_size_x :: "typed_crf \<Rightarrow> typed_graph \<Rightarrow> error + bool" where
  "check_size_x s x =
     (if length (x0 x) \<noteq> n_types s then Inl (ValueError ExpectedNodeFeatureArrays)
      else
        bind_err (check_features s (enumerate 0 (x0 x))) (\<lambda>_.
        bind_err (check_edges_shape (x1 x)) (\<lambda>_.
        bind_err (check_type_pairs s x (iter_type_pairs s)) (\<lambda>_.
        Inr True))))"

subsection \<open>\<^verbatim>\<open>_check_size_xy\<close>\<close>

text \<open>The loop of lines 197-206 over \<^verbatim>\<open>zip(range(self.n_types), l_node_features, self.l_n_states)\<close>;
  \<^verbatim>\<open>np.min\<close> and \<^verbatim>\<open>np.max\<close> of an empty slice raise \<^verbatim>\<open>ValueError\<close>.\<close>

fun check_labels :: "typed_crf \<Rightarrow> (nat \<times> real array2 \<times> nat) list \<Rightarrow> int list \<Rightarrow> nat \<Rightarrow> error + unit" where
  "check_labels s [] Y i_start = Inr ()"
| "check_labels s ((typ, nf, n_st) # rest) Y i_start =
     (let nb_nodes = shape0 nf;
          Y_typ = take nb_nodes (drop i_start Y)
      in
        bind_err (py_min Y_typ) (\<lambda>lo.
        if lo < 0 then Inl (ValueError (NegativeLabel typ))
        else if lo < int (l_type_startindex s ! typ)
          then Inl (InconsistentLabel (LabelsStartAt typ (l_type_startindex s ! typ)))
        else
          bind_err (py_max Y_typ) (\<lambda>hi.
          if hi \<ge> int (l_type_startindex s ! (typ + 1))
            then Inl (InconsistentLabel (LabelsEndAt typ (int (l_type_startindex s ! (typ + 1)) - 1)))
          else check_labels s rest Y (i_start + nb_nodes))))"

text \<open>The result is \<^verbatim>\<open>None\<close> when no labels are given, \<^verbatim>\<open>True\<close> otherwise.\<close>

definition check_size_xy :: "typed_crf \<Rightarrow> typed_graph \<Rightarrow> int list option \<Rightarrow> error + bool option" where
  "check_size_xy s X Y_opt =
     (case Y_opt of
        None \<Rightarrow> Inr None
      | Some Y \<Rightarrow>
          (let l_node_features = get_node_features_clean s X;
               nb_nodes = sum_list (map shape0 l_node_features)
           in
             if length Y \<noteq> nb_nodes then Inl (ValueError (ExpectedLabels nb_nodes (length Y)))
             else
               bind_err (check_labels s (zip [0..<n_types s] (zip l_node_features (l_n_states s))) Y 0)
                 (\<lambda>_. Inr (Some True))))"

subsection \<open>\<^verbatim>\<open>_get_unary_potentials\<close>\<close>

text \<open>Modelled from the spec: \<^verbatim>\<open>_check_size_w\<close> is a method of the base class
  \<^verbatim>\<open>StructuredModel\<close> (\<^verbatim>\<open>pystruct/models/base.py\<close>), which is not among the sources. The spec:
  the length of the weights is \<^verbatim>\<open>size_unary_weights\<close>, \<^verbatim>\<open>WeightSizeMismatch\<close> otherwise.\<close>

definition check_size_w :: "typed_crf \<Rightarrow> real list \<Rightarrow> error + unit" where
  "check_size_w s w =
     (if length w \<noteq> size_joint_feature s then Inl (ValueError (WrongShapeW (size_joint_feature s) (length w)))
      else Inr ())"

text \<open>\<^verbatim>\<open>w[i:j]\<close> for \<open>i \<le> j\<close>, \<^verbatim>\<open>reshape(r, c)\<close> of a 1-dimensional array (row-major),
  \<^verbatim>\<open>.T\<close> and \<^verbatim>\<open>np.dot\<close> of two 2-dimensional arrays.\<close>

definition py_slice :: "'a list \<Rightarrow> nat \<Rightarrow> nat \<Rightarrow> 'a list" where
  "py_slice xs i j = take (j - i) (drop i xs)"

fun chunks :: "nat \<Rightarrow> nat \<Rightarrow> 'a list \<Rightarrow> 'a list list" where
  "chunks c 0 xs = []"
| "chunks c (Suc r) xs = take c xs # chunks c r (drop c xs)"

definition reshape :: "nat \<Rightarrow> nat \<Rightarrow> real list \<Rightarrow> error + real array2" where
  "reshape r c xs =
     (if length xs \<noteq> r * c then Inl (ValueError CannotReshape) else Inr (Array2 c (chunks c r xs)))"

definition transpose_T :: "real array2 \<Rightarrow> real array2" where
  "transpose_T a = Array2 (shape0 a) (map (\<lambda>j. map (\<lambda>r. r ! j) (rows a)) [0..<n_cols a])"

definition np_dot :: "real array2 \<Rightarrow> real array2 \<Rightarrow> error + real array2" where
  "np_dot a b =
     (if n_cols a \<noteq> shape0 b then Inl (ValueError ShapesNotAligned)
      else Inr (Array2 (n_cols b)
             (map (\<lambda>r. map (\<lambda>j. \<Sum>k\<leftarrow>[0..<n_cols a]. r ! k * (rows b ! k ! j)) [0..<n_cols b]) (rows a))))"

text \<open>The loop of lines 270-273; it returns the potentials with the final \<^verbatim>\<open>i_w\<close>.\<close>

fun unary_loop ::
  "(real array2 \<times> nat \<times> nat) list \<Rightarrow> real list \<Rightarrow> nat \<Rightarrow> real array2 list \<Rightarrow> error + (real array2 list \<times> nat)" where
  "unary_loop [] w i_w l_unary_potentials = Inr (l_unary_potentials, i_w)"
| "unary_loop ((features, n_st, n_ft) # rest) w i_w l_unary_potentials =
     (let n_w = n_st * n_ft in
        bind_err (reshape n_st n_ft (py_slice w i_w (i_w + n_w))) (\<lambda>wm.
        bind_err (np_dot features (transpose_T wm)) (\<lambda>u.
        unary_loop rest w (i_w + n_w) (l_unary_potentials @ [u]))))"

definition get_unary_potentials :: "typed_crf \<Rightarrow> typed_graph \<Rightarrow> real list \<Rightarrow> error + real array2 list" where
  "get_unary_potentials s x w =
     bind_err (check_size_w s w) (\<lambda>_.
     bind_err (unary_loop (zip (get_node_features_clean s x) (zip (l_n_states s) (l_n_features s))) w 0 [])
       (\<lambda>(l_unary_potentials, i_w).
          if i_w = size_unaries s then Inr l_unary_potentials else Inl AssertionError))"

subsection \<open>Notions of the specification\<close>

text \<open>The sum of \<^verbatim>\<open>states[i] * states[j]\<close> over the ordered pairs \<open>(i, j)\<close> that precede
  \<open>(t1, t2)\<close> in row-major order: the full rows \<open>i < t1\<close>, then the pairs \<open>(t1, j)\<close> with
  \<open>j < t2\<close>.\<close>

definition edge_offset :: "nat list \<Rightarrow> nat \<Rightarrow> nat \<Rightarrow> nat" where
  "edge_offset sts t1 t2 =
     (\<Sum>i<t1. \<Sum>j<length sts. sts ! i * sts ! j) + (\<Sum>j<t2. sts ! t1 * sts ! j)"

text \<open>The dot product of two vectors; the offset of type \<open>t\<close> in the weights, the sum of
  \<^verbatim>\<open>states * features\<close> over the types before it; the feature vectors of the nodes of type
  \<open>t\<close>, none when the table is missing.\<close>

definition dot :: "real list \<Rightarrow> real list \<Rightarrow> real" where
  "dot xs ys = sum_list (map2 (*) xs ys)"

definition weight_offset :: "nat list \<Rightarrow> nat list \<Rightarrow> nat \<Rightarrow> nat" where
  "weight_offset sts fts t = (\<Sum>u<t. sts ! u * fts ! u)"

definition node_rows :: "typed_graph \<Rightarrow> nat \<Rightarrow> real list list" where
  "node_rows x t = (case x0 x ! t of None \<Rightarrow> [] | Some a \<Rightarrow> rows a)"

text \<open>The node part of structural validity: one table per type, each missing or of the type's
  width (every row of an array has as many entries as the array has columns).\<close>

definition nodes_ok :: "typed_crf \<Rightarrow> typed_graph \<Rightarrow> bool" where
  "nodes_ok s x =
     (length (x0 x) = n_types s \<and>
      (\<forall>t<n_types s. case x0 x ! t of None \<Rightarrow> True
                       | Some a \<Rightarrow> n_cols a = l_n_features s ! t \<and> wf_array2 a))"

text \<open>For the proofs: the weights a list of types consumes, and the score table of one type.\<close>

definition sizes :: "(real array2 \<times> nat \<times> nat) list \<Rightarrow> nat" where
  "sizes ts = sum_list (map (\<lambda>(f, n_st, n_ft). n_st * n_ft) ts)"

definition score_table :: "real list \<Rightarrow> nat \<Rightarrow> real list list \<Rightarrow> nat \<Rightarrow> nat \<Rightarrow> real array2" where
  "score_table w off node_feats n_st n_ft =
     Array2 n_st (map (\<lambda>feat. map (\<lambda>st. dot feat (py_slice w (off + st * n_ft) (off + (st + 1) * n_ft))) [0..<n_st])
                     node_feats)"

text \<open>Labels: the number of nodes of type \<open>t\<close>, the contiguous run of the labels of type \<open>t\<close>,
  the bound \<^verbatim>\<open>type_label_bounds[t]\<close> (the sum of the state counts of the types before \<open>t\<close>), the
  number of runs the label validator walks, the total number of nodes, and a run whose every
  label lies in its type's range.\<close>

definition n_nodes :: "typed_graph \<Rightarrow> nat \<Rightarrow> nat" where
  "n_nodes x t = length (node_rows x t)"

definition label_run :: "typed_graph \<Rightarrow> int list \<Rightarrow> nat \<Rightarrow> int list" where
  "label_run x Y t = take (n_nodes x t) (drop (\<Sum>u<t. n_nodes x u) Y)"

definition type_label_bounds :: "nat list \<Rightarrow> nat \<Rightarrow> nat" where
  "type_label_bounds sts t = sum_list (take t sts)"

definition n_runs :: "typed_crf \<Rightarrow> typed_graph \<Rightarrow> nat" where
  "n_runs s x = min (length (x0 x)) (n_types s)"

definition total_nodes :: "typed_crf \<Rightarrow> typed_graph \<Rightarrow> nat" where
  "total_nodes s x = (\<Sum>t<n_runs s x. n_nodes x t)"

definition run_in_range :: "typed_crf \<Rightarrow> typed_graph \<Rightarrow> int list \<Rightarrow> nat \<Rightarrow> bool" where
  "run_in_range s x Y t =
     list_all (\<lambda>y. int (type_label_bounds (l_n_states s) t) \<le> y
                  \<and> y < int (type_label_bounds (l_n_states s) (t + 1))) (label_run x Y t)"

text \<open>For the proofs: the node counts of the items of the label loop, the run of the item at
  position \<open>j\<close> when the loop starts at \<open>i\<close>, and an item that passes the three checks.\<close>

definition counts :: "(nat \<times> real array2 \<times> nat) list \<Rightarrow> nat list" where
  "counts its = map (\<lambda>(typ, nf, n_st). shape0 nf) its"

definition item_run :: "(nat \<times> real array2 \<times> nat) list \<Rightarrow> int list \<Rightarrow> nat \<Rightarrow> nat \<Rightarrow> int list" where
  "item_run its Y i j = take (counts its ! j) (drop (i + sum_list (take j (counts its))) Y)"

definition item_ok :: "typed_crf \<Rightarrow> (nat \<times> real array2 \<times> nat) list \<Rightarrow> int list \<Rightarrow> nat \<Rightarrow> nat \<Rightarrow> bool" where
  "item_ok s its Y i j =
     (item_run its Y i j \<noteq> [] \<and>
      list_all (\<lambda>y. 0 \<le> y \<and> int (l_type_startindex s ! fst (its ! j)) \<le> y
                    \<and> y < int (l_type_startindex s ! (fst (its ! j) + 1))) (item_run its Y i j))"

text \<open>Instances: the edge table of the ordered pair \<open>(t1, t2)\<close>, the edges a table holds, a
  table that is missing or has two columns, the structural part of validity (one node table of
  the declared width per type, a table for every ordered pair, every table missing or of two
  columns), and the three ways an edge dangles: a negative endpoint, a source or a target that is
  no node of its type.\<close>

definition edge_table :: "typed_crf \<Rightarrow> typed_graph \<Rightarrow> nat \<Rightarrow> nat \<Rightarrow> edge_array option" where
  "edge_table s x t1 t2 = x1 x ! (t1 * n_types s + t2)"

fun edges_of :: "edge_array option \<Rightarrow> (int \<times> int) list" where
  "edges_of None = []"
| "edges_of (Some (Edges1 _)) = []"
| "edges_of (Some (Edges2 a)) = map (\<lambda>r. (r ! 0, r ! 1)) (rows a)"

fun edge_shape_ok :: "edge_array option \<Rightarrow> bool" where
  "edge_shape_ok None = True"
| "edge_shape_ok (Some (Edges1 _)) = False"
| "edge_shape_ok (Some (Edges2 a)) = (n_cols a = 2)"

definition structure_ok :: "typed_crf \<Rightarrow> typed_graph \<Rightarrow> bool" where
  "structure_ok s x =
     (length (x0 x) = n_types s
      \<and> (\<forall>t<n_types s. \<exists>a. x0 x ! t = Some a \<and> n_cols a = l_n_features s ! t)
      \<and> n_types s * n_types s \<le> length (x1 x)
      \<and> list_all edge_shape_ok (x1 x))"

definition has_negative :: "edge_array option \<Rightarrow> bool" where
  "has_negative tbl = list_ex (\<lambda>(u, v). u < 0 \<or> v < 0) (edges_of tbl)"

definition source_out :: "typed_graph \<Rightarrow> nat \<Rightarrow> edge_array option \<Rightarrow> bool" where
  "source_out x t1 tbl = list_ex (\<lambda>(u, v). u \<ge> int (n_nodes x t1)) (edges_of tbl)"

definition target_out :: "typed_graph \<Rightarrow> nat \<Rightarrow> edge_array option \<Rightarrow> bool" where
  "target_out x t2 tbl = list_ex (\<lambda>(u, v). v \<ge> int (n_nodes x t2)) (edges_of tbl)"

definition dangling :: "typed_crf \<Rightarrow> typed_graph \<Rightarrow> nat \<Rightarrow> nat \<Rightarrow> bool" where
  "dangling s x t1 t2 =
     (has_negative (edge_table s x t1 t2) \<or> source_out x t1 (edge_table s x t1 t2)
      \<or> target_out x t2 (edge_table s x t1 t2))"

section \<open>Properties\<close>

subsection \<open>Schema construction\<close>

lemma bind_err_simps [simp]:
  "bind_err (Inl e) f = Inl e"
  "bind_err (Inr v) f = f v"
  by (simp_all add: bind_err_def)

lemma concat_np_ones: "concat (map np_ones sts) = replicate (sum_list sts) 1"
  by (induction sts) (simp_all add: np_ones_def replicate_add)

lemma check_class_weight_None:
  "(check_class_weight cws (enumerate k xs) = None) = (\<forall>j<length xs. length (cws ! (k + j)) = xs ! j)"
proof (induction xs arbitrary: k)
  case Nil
  then show ?case by simp
next
  case (Cons a xs)
  show ?case
    using Cons.IH [of "Suc k"]
    by (auto simp: less_Suc_eq_0_disj)
qed

lemma check_class_weight_Some:
  "check_class_weight cws (enumerate k xs) = Some e \<Longrightarrow>
    \<exists>j<length xs. e = ValueError (ExpectedClassWeightPerState (k + j)) \<and> length (cws ! (k + j)) \<noteq> xs ! j
       \<and> (\<forall>j'<j. length (cws ! (k + j')) = xs ! j')"
proof (induction xs arbitrary: k)
  case Nil
  then show ?case by simp
next
  case (Cons a xs)
  show ?case
  proof (cases "length (cws ! k) = a")
    case False
    with Cons.prems show ?thesis by auto
  next
    case True
    with Cons.prems have "check_class_weight cws (enumerate (Suc k) xs) = Some e" by simp
    from Cons.IH [OF this] obtain j where j: "j < length xs"
      "e = ValueError (ExpectedClassWeightPerState (Suc k + j))"
      "length (cws ! (Suc k + j)) \<noteq> xs ! j"
      "\<forall>j'<j. length (cws ! (Suc k + j')) = xs ! j'" by blast
    have "\<forall>j'<Suc j. length (cws ! (k + j')) = (a # xs) ! j'"
      using j(4) True by (auto simp: less_Suc_eq_0_disj)
    with j show ?thesis
      by (intro exI [of _ "Suc j"]) simp
  qed
qed

text \<open>
  Claim C9, as amended. Construction raises \<^verbatim>\<open>ValueError\<close> (the spec's \<open>InvalidSchema\<close>) and
  returns no schema when the number of state counts differs from \<^verbatim>\<open>n_types\<close>; when the feature
  counts are given and their number differs from \<^verbatim>\<open>n_types\<close>; and, the feature counts being
  given with the right number, when a non-empty list of class weights has a length other than
  \<^verbatim>\<open>n_types\<close>, or some class weight vector has a length other than its type's state count (the
  error names such a type). When there is at least one type, the state and feature counts have
  the right number and class weights are omitted, construction succeeds and the concatenated
  class weights are all ones, \<^verbatim>\<open>total_states\<close> many.
\<close>

theorem schema_construction:
  "(length sts \<noteq> n \<longrightarrow> TypedCRF_init n sts fts_opt lcw = Inl (ValueError ExpectedStatesPerType))
 \<and> (length sts = n \<and> length fts \<noteq> n \<longrightarrow>
      TypedCRF_init n sts (Some fts) lcw = Inl (ValueError ExpectedFeaturesPerType))
 \<and> (length sts = n \<and> length fts = n \<and> cws \<noteq> [] \<and> length cws \<noteq> n \<longrightarrow>
      TypedCRF_init n sts (Some fts) (Some cws) = Inl (ValueError ExpectedClassWeightList))
 \<and> (length sts = n \<and> length fts = n \<and> cws \<noteq> [] \<and> length cws = n
        \<and> (\<exists>i<n. length (cws ! i) \<noteq> sts ! i) \<longrightarrow>
      (\<exists>i<n. length (cws ! i) \<noteq> sts ! i \<and>
         TypedCRF_init n sts (Some fts) (Some cws) = Inl (ValueError (ExpectedClassWeightPerState i))))
 \<and> (0 < n \<and> length sts = n \<and> length fts = n \<longrightarrow>
      (\<exists>s. TypedCRF_init n sts (Some fts) None = Inr s
         \<and> class_weight s = replicate (sum_list sts) 1 \<and> n_states s = sum_list sts
         \<and> length (class_weight s) = n_states s))"
proof (intro conjI impI)
  assume "length sts \<noteq> n"
  then show "TypedCRF_init n sts fts_opt lcw = Inl (ValueError ExpectedStatesPerType)"
    by (simp add: TypedCRF_init_def)
next
  assume "length sts = n \<and> length fts \<noteq> n"
  then show "TypedCRF_init n sts (Some fts) lcw = Inl (ValueError ExpectedFeaturesPerType)"
    by (simp add: TypedCRF_init_def)
next
  assume "length sts = n \<and> length fts = n \<and> cws \<noteq> [] \<and> length cws \<noteq> n"
  then show "TypedCRF_init n sts (Some fts) (Some cws) = Inl (ValueError ExpectedClassWeightList)"
    by (simp add: TypedCRF_init_def get_l_class_weight_def)
next
  assume a: "length sts = n \<and> length fts = n \<and> cws \<noteq> [] \<and> length cws = n
        \<and> (\<exists>i<n. length (cws ! i) \<noteq> sts ! i)"
  then have "check_class_weight cws (enumerate 0 sts) \<noteq> None"
    by (simp add: check_class_weight_None)
  then obtain e where e: "check_class_weight cws (enumerate 0 sts) = Some e" by blast
  from check_class_weight_Some [OF e] obtain j where j: "j < length sts"
    "e = ValueError (ExpectedClassWeightPerState j)" "length (cws ! j) \<noteq> sts ! j" by auto
  have "TypedCRF_init n sts (Some fts) (Some cws) = Inl e"
    using a e by (simp add: TypedCRF_init_def get_l_class_weight_def)
  with j a show "\<exists>i<n. length (cws ! i) \<noteq> sts ! i \<and>
         TypedCRF_init n sts (Some fts) (Some cws) = Inl (ValueError (ExpectedClassWeightPerState i))"
    by auto
next
  assume a: "0 < n \<and> length sts = n \<and> length fts = n"
  then have "sts \<noteq> []" by auto
  with a show "\<exists>s. TypedCRF_init n sts (Some fts) None = Inr s
         \<and> class_weight s = replicate (sum_list sts) 1 \<and> n_states s = sum_list sts
         \<and> length (class_weight s) = n_states s"
    by (simp add: TypedCRF_init_def get_l_class_weight_def np_hstack_def concat_np_ones)
qed

theorem schema_construction_witness:
  "TypedCRF_init 3 [2, 3] (Some [1, 1]) None = Inl (ValueError ExpectedStatesPerType)
 \<and> TypedCRF_init 2 [2, 3] (Some [1]) None = Inl (ValueError ExpectedFeaturesPerType)
 \<and> TypedCRF_init 2 [2, 3] (Some [1, 1]) (Some [[1, 1]]) = Inl (ValueError ExpectedClassWeightList)
 \<and> (\<exists>i<2. TypedCRF_init 2 [2, 3] (Some [1, 1]) (Some [[1, 1], [1, 1]])
            = Inl (ValueError (ExpectedClassWeightPerState i)))
 \<and> (\<exists>s. TypedCRF_init 2 [2, 3] (Some [1, 1]) None = Inr s \<and> class_weight s = [1, 1, 1, 1, 1])"
proof -
  have e: "\<exists>i<2::nat. length ([[1, 1], [1, 1::real]] ! i) \<noteq> [2, 3::nat] ! i"
    by (rule exI [of _ 1]) simp
  have r: "replicate (sum_list [2, 3::nat]) (1::real) = [1, 1, 1, 1, 1]"
    by (simp add: numeral_eq_Suc)
  have p1: "TypedCRF_init 3 [2, 3] (Some [1, 1]) None = Inl (ValueError ExpectedStatesPerType)"
    using schema_construction [of "[2, 3]" 3 "Some [1, 1]" None "[]" "[]"] by simp
  have p2: "TypedCRF_init 2 [2, 3] (Some [1]) None = Inl (ValueError ExpectedFeaturesPerType)"
    using schema_construction [of "[2, 3]" 2 None None "[1]" "[]"] by simp
  have p3: "TypedCRF_init 2 [2, 3] (Some [1, 1]) (Some [[1, 1]]) = Inl (ValueError ExpectedClassWeightList)"
    using schema_construction [of "[2, 3]" 2 None "Some [[1, 1]]" "[1, 1]" "[[1, 1]]"] by simp
  have p4: "\<exists>i<2. TypedCRF_init 2 [2, 3] (Some [1, 1]) (Some [[1, 1], [1, 1]])
            = Inl (ValueError (ExpectedClassWeightPerState i))"
    using schema_construction [of "[2, 3]" 2 None None "[1, 1]" "[[1, 1], [1, 1]]"] e
    by (simp del: nth_Cons_numeral One_nat_def) blast
  have p5: "\<exists>s. TypedCRF_init 2 [2, 3] (Some [1, 1]) None = Inr s \<and> class_weight s = [1, 1, 1, 1, 1]"
    using schema_construction [of "[2, 3]" 2 None None "[1, 1]" "[]"] r
    by (simp del: replicate.simps sum_list.Cons One_nat_def) blast
  show ?thesis
    using p1 p2 p3 p4 p5 by blast
qed

text \<open>
  The claim as stated lets the feature counts be anything and the number of types be 0. A wrong
  number of feature counts is rejected though no condition of the claim holds; with the feature
  counts omitted a wrong class weight vector is never looked at, since \<^verbatim>\<open>sum(None)\<close> raises
  \<^verbatim>\<open>TypeError\<close> first; and with no type at all \<^verbatim>\<open>np.hstack\<close> refuses the empty list.
\<close>

theorem schema_construction_counterexample:
  "TypedCRF_init 1 [2] (Some [1, 1]) None = Inl (ValueError ExpectedFeaturesPerType)
 \<and> TypedCRF_init 1 [2] None (Some [[1]]) = Inl TypeError
 \<and> TypedCRF_init 0 [] (Some []) None = Inl (ValueError NeedArrayToConcatenate)"
  by (simp add: TypedCRF_init_def get_l_class_weight_def np_hstack_def)

text \<open>
  Claim C10, as amended. With the feature counts omitted construction never succeeds: it raises
  \<^verbatim>\<open>ValueError\<close> when the number of state counts differs from \<^verbatim>\<open>n_types\<close>, and otherwise
  \<^verbatim>\<open>TypeError\<close> at \<^verbatim>\<open>sum(self.l_n_features)\<close>, whatever the class weights are.
\<close>

theorem features_omitted:
  "(\<exists>e. TypedCRF_init n sts None lcw = Inl e)
 \<and> (length sts = n \<longrightarrow> TypedCRF_init n sts None lcw = Inl TypeError)
 \<and> (length sts \<noteq> n \<longrightarrow> TypedCRF_init n sts None lcw = Inl (ValueError ExpectedStatesPerType))"
  by (simp add: TypedCRF_init_def)

theorem features_omitted_witness:
  "TypedCRF_init 2 [2, 3] None None = Inl TypeError
 \<and> TypedCRF_init 2 [2, 3] None (Some [[1, 1], [1, 1, 1]]) = Inl TypeError
 \<and> TypedCRF_init 3 [2, 3] None None = Inl (ValueError ExpectedStatesPerType)"
  using features_omitted [of 2 "[2, 3]" None] features_omitted [of 2 "[2, 3]" "Some [[1, 1], [1, 1, 1]]"]
    features_omitted [of 3 "[2, 3]" None]
  by simp

text \<open>
  The claim as stated has the failure at the sum of the feature counts for every choice of the
  other arguments; the check of the state counts comes first.
\<close>

theorem features_omitted_counterexample:
  "TypedCRF_init 1 [] None None = Inl (ValueError ExpectedStatesPerType)
 \<and> TypedCRF_init 1 [] None None \<noteq> Inl TypeError"
  by (simp add: TypedCRF_init_def)

subsection \<open>What a constructed schema holds\<close>

lemma init_fields:
  assumes "TypedCRF_init n sts fts_opt lcw = Inr s"
  shows "length sts = n" "n_types s = n" "l_n_states s = sts"
    "\<exists>fts. fts_opt = Some fts \<and> length fts = n \<and> l_n_features s = fts"
    "size_unaries s = set_size_joint_feature sts (l_n_features s)"
    "size_joint_feature s = size_unaries s"
    "l_type_startindex s = map (\<lambda>i. sum_list (take i sts)) [0..<n + 1]"
    "l_n_edge_states s = concat (map (\<lambda>n1. map (\<lambda>n2. n1 * n2) sts) sts)"
    "a_startindex_by_typ_typ s = startindex_by_typ_typ n sts"
  using assms
  by (auto simp: TypedCRF_init_def split: if_splits option.splits sum.splits)

lemma init_ok:
  assumes "0 < n" "length sts = n" "length fts = n"
  shows "\<exists>s. TypedCRF_init n sts (Some fts) None = Inr s"
proof -
  have "sts \<noteq> []" using assms by auto
  then show ?thesis
    using assms by (simp add: TypedCRF_init_def get_l_class_weight_def np_hstack_def)
qed

subsection \<open>Offsets of the type pairs\<close>

lemma sum_list_take_nth: "t \<le> length (xs::nat list) \<Longrightarrow> sum_list (take t xs) = (\<Sum>i<t. xs ! i)"
  by (simp add: sum_list_sum_nth atLeast0LessThan)

lemma edge_offset_closed:
  assumes "t1 < length sts" "t2 \<le> length sts"
  shows "edge_offset sts t1 t2 = sum_list (take t1 sts) * sum_list sts + sts ! t1 * sum_list (take t2 sts)"
proof -
  have a: "(\<Sum>i<t1. \<Sum>j<length sts. sts ! i * sts ! j) = (\<Sum>i<t1. sts ! i) * (\<Sum>j<length sts. sts ! j)"
    by (simp add: sum_product)
  have b: "(\<Sum>j<t2. sts ! t1 * sts ! j) = sts ! t1 * (\<Sum>j<t2. sts ! j)"
    by (simp add: sum_distrib_left)
  have c: "sum_list sts = (\<Sum>j<length sts. sts ! j)"
    using sum_list_take_nth [of "length sts" sts] by simp
  have d: "sum_list (take t1 sts) = (\<Sum>i<t1. sts ! i)" "sum_list (take t2 sts) = (\<Sum>i<t2. sts ! i)"
    using assms by (simp_all add: sum_list_take_nth)
  show ?thesis
    unfolding edge_offset_def a b c d ..
qed

lemma fill_row_snd: "snd (fill_row t n1 (enumerate k xs) (a, i)) = i + n1 * sum_list xs"
  by (induction xs arbitrary: k a i) (simp_all add: algebra_simps)

lemma fill_row_length: "length (fst (fill_row t n1 ps (a, i))) = length a"
  by (induction ps arbitrary: a i) auto

lemma fill_row_other: "r \<noteq> t \<Longrightarrow> fst (fill_row t n1 ps (a, i)) ! r = a ! r"
  by (induction ps arbitrary: a i) auto

lemma fill_row_same_length:
  "t < length a \<Longrightarrow> length (fst (fill_row t n1 ps (a, i)) ! t) = length (a ! t)"
  by (induction ps arbitrary: a i) auto

lemma fill_row_same:
  "t < length a \<Longrightarrow> c < length (a ! t) \<Longrightarrow>
   fst (fill_row t n1 (enumerate k xs) (a, i)) ! t ! c =
     (if k \<le> c \<and> c < k + length xs then of_nat (i + n1 * sum_list (take (c - k) xs)) else a ! t ! c)"
proof (induction xs arbitrary: k a i)
  case Nil
  then show ?case by auto
next
  case (Cons x xs)
  let ?a1 = "a[t := (a ! t)[k := of_nat i]]"
  have l: "t < length ?a1" "c < length (?a1 ! t)" using Cons.prems by simp_all
  have step: "fill_row t n1 (enumerate k (x # xs)) (a, i) = fill_row t n1 (enumerate (Suc k) xs) (?a1, i + n1 * x)"
    by simp
  show ?case
  proof (cases "c = k")
    case True
    then show ?thesis
      unfolding step Cons.IH [OF l] using Cons.prems by simp
  next
    case False
    then show ?thesis
      unfolding step Cons.IH [OF l] using Cons.prems
      by (auto simp: Suc_diff_le take_Cons' algebra_simps)
  qed
qed

lemma fill_row_row_length:
  "r < length a \<Longrightarrow> length (fst (fill_row t n1 ps (a, i)) ! r) = length (a ! r)"
  by (cases "r = t") (simp_all add: fill_row_same_length fill_row_other)

lemma fill_rows_snd: "snd (fill_rows sts (enumerate k ys) (a, i)) = i + sum_list ys * sum_list sts"
proof (induction ys arbitrary: k a i)
  case Nil
  then show ?case by simp
next
  case (Cons y ys)
  obtain a1 i1 where st: "fill_row k y (enumerate 0 sts) (a, i) = (a1, i1)"
    by (cases "fill_row k y (enumerate 0 sts) (a, i)")
  have "i1 = i + y * sum_list sts"
    using fill_row_snd [of k y 0 sts a i] st by simp
  then show ?case
    using Cons.IH [of "Suc k" a1 i1] st by (simp add: algebra_simps)
qed

lemma fill_rows_entry:
  "r < length a \<Longrightarrow> c < length sts \<Longrightarrow> c < length (a ! r) \<Longrightarrow>
   fst (fill_rows sts (enumerate k ys) (a, i)) ! r ! c =
     (if k \<le> r \<and> r < k + length ys
      then of_nat (i + sum_list (take (r - k) ys) * sum_list sts + ys ! (r - k) * sum_list (take c sts))
      else a ! r ! c)"
proof (induction ys arbitrary: k a i)
  case Nil
  then show ?case by auto
next
  case (Cons y ys)
  obtain a1 i1 where st: "fill_row k y (enumerate 0 sts) (a, i) = (a1, i1)"
    by (cases "fill_row k y (enumerate 0 sts) (a, i)")
  have i1: "i1 = i + y * sum_list sts"
    using fill_row_snd [of k y 0 sts a i] st by simp
  have a1: "a1 = fst (fill_row k y (enumerate 0 sts) (a, i))"
    using st by simp
  have l: "r < length a1" "c < length (a1 ! r)"
    using Cons.prems by (simp_all add: a1 fill_row_length fill_row_row_length)
  have step: "fill_rows sts (enumerate k (y # ys)) (a, i) = fill_rows sts (enumerate (Suc k) ys) (a1, i1)"
    using st by simp
  show ?case
  proof (cases "r = k")
    case True
    have "a1 ! k ! c = of_nat (i + y * sum_list (take c sts))"
      using Cons.prems True by (simp add: a1 fill_row_same)
    then show ?thesis
      unfolding step Cons.IH [OF l(1) Cons.prems(2) l(2)] using True by simp
  next
    case False
    then have "a1 ! r = a ! r"
      by (simp add: a1 fill_row_other)
    then show ?thesis
      unfolding step Cons.IH [OF l(1) Cons.prems(2) l(2)] using False
      by (auto simp: i1 Suc_diff_le take_Cons' algebra_simps)
  qed
qed

lemma startindex_entry:
  assumes "t1 < length sts" "t2 < length sts"
  shows "startindex_by_typ_typ (length sts) sts ! t1 ! t2 = of_nat (edge_offset sts t1 t2)"
  using assms
  by (simp add: startindex_by_typ_typ_def fill_rows_entry edge_offset_closed)

lemma prefix_Suc: "p < length (ws::nat list) \<Longrightarrow> sum_list (take (Suc p) ws) = sum_list (take p ws) + ws ! p"
  by (simp add: take_Suc_conv_app_nth)

lemma prefix_mono: "p \<le> q \<Longrightarrow> sum_list (take p (ws::nat list)) \<le> sum_list (take q ws)"
proof (induction ws arbitrary: p q)
  case Nil
  then show ?case by simp
next
  case (Cons w ws)
  then show ?case
    by (cases p; cases q) simp_all
qed

lemma prefix_le_total: "sum_list (take p (ws::nat list)) \<le> sum_list ws"
  using prefix_mono [of p "length ws" ws] by (cases "p \<le> length ws") simp_all

lemma prefix_partition_ex:
  "k < sum_list (ws::nat list) \<Longrightarrow>
   \<exists>p<length ws. sum_list (take p ws) \<le> k \<and> k < sum_list (take p ws) + ws ! p"
proof (induction ws arbitrary: k)
  case Nil
  then show ?case by simp
next
  case (Cons w ws)
  show ?case
  proof (cases "k < w")
    case True
    then show ?thesis by (intro exI [of _ 0]) simp
  next
    case False
    with Cons.prems have "k - w < sum_list ws" by simp
    from Cons.IH [OF this] obtain p where p: "p < length ws"
      "sum_list (take p ws) \<le> k - w" "k - w < sum_list (take p ws) + ws ! p" by blast
    have "w + sum_list (take p ws) \<le> k \<and> k < w + sum_list (take p ws) + ws ! p"
      using False p(2,3) by linarith
    with p(1) show ?thesis
      by (intro exI [of _ "Suc p"]) simp
  qed
qed

lemma prefix_partition_unique:
  assumes "p < length (ws::nat list)" "q < length ws"
    and "sum_list (take p ws) \<le> k" "k < sum_list (take p ws) + ws ! p"
    and "sum_list (take q ws) \<le> k" "k < sum_list (take q ws) + ws ! q"
  shows "p = q"
proof (rule ccontr)
  assume "p \<noteq> q"
  then consider "Suc p \<le> q" | "Suc q \<le> p" by linarith
  then show False
  proof cases
    case 1
    from prefix_mono [OF 1, of ws] assms show False by (simp add: prefix_Suc)
  next
    case 2
    from prefix_mono [OF 2, of ws] assms show False by (simp add: prefix_Suc)
  qed
qed

lemma sum_list_edge_states:
  "sum_list (concat (map (\<lambda>n1. map (\<lambda>n2. n1 * n2) sts) sts)) = sum_list sts * sum_list (sts::nat list)"
proof -
  have "\<And>ys. sum_list (concat (map (\<lambda>n1. map (\<lambda>n2. n1 * n2) sts) ys)) = sum_list ys * sum_list sts"
  proof -
    fix ys :: "nat list"
    show "sum_list (concat (map (\<lambda>n1. map (\<lambda>n2. n1 * n2) sts) ys)) = sum_list ys * sum_list sts"
      by (induction ys) (simp_all add: sum_list_const_mult algebra_simps)
  qed
  then show ?thesis .
qed

text \<open>The sub-range of a pair, from the closed form of its offset.\<close>

lemma edge_offset_end:
  assumes "t1 < length sts" "t2 < length sts"
  shows "edge_offset sts t1 t2 + sts ! t1 * sts ! t2 \<le> sum_list sts * sum_list sts"
proof -
  let ?T = "sum_list sts"
  have a: "sum_list (take t2 sts) + sts ! t2 \<le> ?T"
    using prefix_Suc [OF assms(2)] prefix_le_total [of "Suc t2" sts] by simp
  have b: "sum_list (take t1 sts) + sts ! t1 \<le> ?T"
    using prefix_Suc [OF assms(1)] prefix_le_total [of "Suc t1" sts] by simp
  have "sts ! t1 * (sum_list (take t2 sts) + sts ! t2) \<le> sts ! t1 * ?T"
    using a by (rule mult_le_mono2)
  moreover have "(sum_list (take t1 sts) + sts ! t1) * ?T \<le> ?T * ?T"
    using b by (rule mult_le_mono1)
  ultimately show ?thesis
    using assms by (simp add: edge_offset_closed algebra_simps)
qed

lemma edge_tiling_ex:
  assumes "k < sum_list sts * sum_list sts"
  shows "\<exists>t1<length sts. \<exists>t2<length sts.
           edge_offset sts t1 t2 \<le> k \<and> k < edge_offset sts t1 t2 + sts ! t1 * sts ! t2"
proof -
  let ?T = "sum_list sts"
  let ?ws = "map (\<lambda>n1. n1 * ?T) sts"
  have tot: "sum_list ?ws = ?T * ?T"
    by (simp add: sum_list_mult_const)
  have pre: "\<And>p. sum_list (take p ?ws) = sum_list (take p sts) * ?T"
    by (simp add: take_map sum_list_mult_const)
  from prefix_partition_ex [of k ?ws] assms tot obtain t1 where t1: "t1 < length sts"
    "sum_list (take t1 sts) * ?T \<le> k" "k < sum_list (take t1 sts) * ?T + sts ! t1 * ?T"
    by (auto simp: pre)
  let ?k = "k - sum_list (take t1 sts) * ?T"
  let ?vs = "map (\<lambda>n2. sts ! t1 * n2) sts"
  have pre2: "\<And>p. sum_list (take p ?vs) = sts ! t1 * sum_list (take p sts)"
    by (simp add: take_map sum_list_const_mult)
  have "?k < sum_list ?vs"
    using t1 by (simp add: sum_list_const_mult)
  from prefix_partition_ex [OF this] obtain t2 where t2: "t2 < length sts"
    "sts ! t1 * sum_list (take t2 sts) \<le> ?k" "?k < sts ! t1 * sum_list (take t2 sts) + sts ! t1 * sts ! t2"
    by (auto simp: pre2)
  have "sum_list (take t1 sts) * ?T + sts ! t1 * sum_list (take t2 sts) \<le> k
       \<and> k < sum_list (take t1 sts) * ?T + sts ! t1 * sum_list (take t2 sts) + sts ! t1 * sts ! t2"
    using t1(2) t2(2,3) by linarith
  then have "edge_offset sts t1 t2 \<le> k \<and> k < edge_offset sts t1 t2 + sts ! t1 * sts ! t2"
    using t1(1) t2(1) by (simp add: edge_offset_closed)
  with t1(1) t2(1) show ?thesis by blast
qed

lemma edge_tiling_unique:
  assumes "t1 < length sts" "t2 < length sts" "u1 < length sts" "u2 < length sts"
    and t: "edge_offset sts t1 t2 \<le> k" "k < edge_offset sts t1 t2 + sts ! t1 * sts ! t2"
    and u: "edge_offset sts u1 u2 \<le> k" "k < edge_offset sts u1 u2 + sts ! u1 * sts ! u2"
  shows "t1 = u1 \<and> t2 = u2"
proof -
  let ?T = "sum_list sts"
  let ?ws = "map (\<lambda>n1. n1 * ?T) sts"
  have pre: "\<And>p. sum_list (take p ?ws) = sum_list (take p sts) * ?T"
    by (simp add: take_map sum_list_mult_const)
  have row: "sum_list (take v1 sts) * ?T \<le> k \<and> k < sum_list (take v1 sts) * ?T + sts ! v1 * ?T"
    if v: "v1 < length sts" "v2 < length sts" "edge_offset sts v1 v2 \<le> k"
      "k < edge_offset sts v1 v2 + sts ! v1 * sts ! v2" for v1 v2
  proof -
    have "sum_list (take v2 sts) + sts ! v2 \<le> ?T"
      using prefix_Suc [OF v(2)] prefix_le_total [of "Suc v2" sts] by simp
    then have "sts ! v1 * (sum_list (take v2 sts) + sts ! v2) \<le> sts ! v1 * ?T"
      by (rule mult_le_mono2)
    then show ?thesis
      using v by (simp add: edge_offset_closed algebra_simps)
  qed
  have e1: "t1 = u1"
    using prefix_partition_unique [of t1 ?ws u1 k] row [OF assms(1,2) t] row [OF assms(3,4) u] assms(1,3)
    by (simp add: pre)
  let ?k = "k - sum_list (take t1 sts) * ?T"
  let ?vs = "map (\<lambda>n2. sts ! t1 * n2) sts"
  have pre2: "\<And>p. sum_list (take p ?vs) = sts ! t1 * sum_list (take p sts)"
    by (simp add: take_map sum_list_const_mult)
  have ct: "sum_list (take t1 sts) * ?T + sts ! t1 * sum_list (take t2 sts) \<le> k"
    "k < sum_list (take t1 sts) * ?T + sts ! t1 * sum_list (take t2 sts) + sts ! t1 * sts ! t2"
    using t assms(1,2) by (simp_all add: edge_offset_closed)
  have cu: "sum_list (take t1 sts) * ?T + sts ! t1 * sum_list (take u2 sts) \<le> k"
    "k < sum_list (take t1 sts) * ?T + sts ! t1 * sum_list (take u2 sts) + sts ! t1 * sts ! u2"
    using u assms(3,4) e1 by (simp_all add: edge_offset_closed)
  have nt: "?vs ! t2 = sts ! t1 * sts ! t2" and nu: "?vs ! u2 = sts ! t1 * sts ! u2"
    using assms(2,4) by simp_all
  have vt: "sum_list (take t2 ?vs) \<le> ?k" "?k < sum_list (take t2 ?vs) + ?vs ! t2"
    unfolding pre2 nt using ct by linarith+
  have vu: "sum_list (take u2 ?vs) \<le> ?k" "?k < sum_list (take u2 ?vs) + ?vs ! u2"
    unfolding pre2 nu using cu by linarith+
  have "t2 = u2"
    using prefix_partition_unique [OF _ _ vt vu] assms(2,4) by simp
  with e1 show ?thesis by simp
qed

lemma unat_2_32: "unat (of_nat 4294967296 :: 32 word) = 0"
  by (simp add: unat_of_nat)

text \<open>
  Claim C7, as amended. For a constructed schema the stored offset of the pair \<open>(t1, t2)\<close> is
  the sum of \<^verbatim>\<open>states[i] * states[j]\<close> over the pairs that precede it in row-major order,
  modulo \<open>2 ^ 32\<close> (the matrix has \<^verbatim>\<open>dtype=np.uint32\<close>). When the total number of edge states is
  below \<open>2 ^ 32\<close> the stored offset is that sum itself, every sub-range
  \<open>[offset, offset + states(t1) * states(t2))\<close> ends within the total, and every index below the
  total lies in the sub-range of exactly one pair: the sub-ranges tile \<open>[0, total)\<close> with no
  gap and no overlap.
\<close>

theorem edge_pair_offsets:
  assumes "TypedCRF_init n sts fts_opt lcw = Inr s"
  shows "(\<forall>t1<n. \<forall>t2<n.
            unat (a_startindex_by_typ_typ s ! t1 ! t2) = edge_offset (l_n_states s) t1 t2 mod 2 ^ 32)
       \<and> (sum_list (l_n_edge_states s) < 2 ^ 32 \<longrightarrow>
            (\<forall>t1<n. \<forall>t2<n.
               unat (a_startindex_by_typ_typ s ! t1 ! t2) = edge_offset (l_n_states s) t1 t2
             \<and> unat (a_startindex_by_typ_typ s ! t1 ! t2) + l_n_states s ! t1 * l_n_states s ! t2
                 \<le> sum_list (l_n_edge_states s))
          \<and> (\<forall>k < sum_list (l_n_edge_states s).
               \<exists>!p. fst p < n \<and> snd p < n
                 \<and> unat (a_startindex_by_typ_typ s ! fst p ! snd p) \<le> k
                 \<and> k < unat (a_startindex_by_typ_typ s ! fst p ! snd p)
                         + l_n_states s ! fst p * l_n_states s ! snd p))"
proof -
  note f = init_fields [OF assms]
  let ?T = "sum_list sts"
  have tot: "sum_list (l_n_edge_states s) = ?T * ?T"
    by (simp add: f(8) sum_list_edge_states)
  have stored: "unat (a_startindex_by_typ_typ s ! t1 ! t2) = edge_offset sts t1 t2 mod 2 ^ 32"
    if "t1 < n" "t2 < n" for t1 t2
    using that startindex_entry [of t1 sts t2] f(1) by (simp add: f(9) unat_of_nat)
  have exact: "unat (a_startindex_by_typ_typ s ! t1 ! t2) = edge_offset sts t1 t2"
    if "t1 < n" "t2 < n" "?T * ?T < 2 ^ 32" for t1 t2
  proof -
    have "edge_offset sts t1 t2 \<le> ?T * ?T"
      using edge_offset_end [of t1 sts t2] that f(1) by simp
    with that(3) have "edge_offset sts t1 t2 < 2 ^ 32" by simp
    then show ?thesis using stored [OF that(1,2)] by simp
  qed
  have tiling: "\<exists>!p. fst p < n \<and> snd p < n
                 \<and> unat (a_startindex_by_typ_typ s ! fst p ! snd p) \<le> k
                 \<and> k < unat (a_startindex_by_typ_typ s ! fst p ! snd p) + sts ! fst p * sts ! snd p"
    if small: "?T * ?T < 2 ^ 32" and k: "k < ?T * ?T" for k
  proof -
    from edge_tiling_ex [OF k] obtain t1 t2 where t: "t1 < length sts" "t2 < length sts"
      "edge_offset sts t1 t2 \<le> k" "k < edge_offset sts t1 t2 + sts ! t1 * sts ! t2" by blast
    show ?thesis
    proof (rule ex1I [of _ "(t1, t2)"])
      show "fst (t1, t2) < n \<and> snd (t1, t2) < n
           \<and> unat (a_startindex_by_typ_typ s ! fst (t1, t2) ! snd (t1, t2)) \<le> k
           \<and> k < unat (a_startindex_by_typ_typ s ! fst (t1, t2) ! snd (t1, t2))
                   + sts ! fst (t1, t2) * sts ! snd (t1, t2)"
        using t f(1) exact [of t1 t2] small by simp
    next
      fix p
      assume p: "fst p < n \<and> snd p < n
           \<and> unat (a_startindex_by_typ_typ s ! fst p ! snd p) \<le> k
           \<and> k < unat (a_startindex_by_typ_typ s ! fst p ! snd p) + sts ! fst p * sts ! snd p"
      then have "edge_offset sts (fst p) (snd p) \<le> k"
        "k < edge_offset sts (fst p) (snd p) + sts ! fst p * sts ! snd p"
        using exact [of "fst p" "snd p"] small by simp_all
      from edge_tiling_unique [OF _ _ t(1,2) this t(3,4)] p f(1)
      have "fst p = t1 \<and> snd p = t2" by simp
      then show "p = (t1, t2)" by (cases p) simp
    qed
  qed
  show ?thesis
    using stored exact tiling edge_offset_end f(1) by (simp add: f(3) tot)
qed

theorem edge_pair_offsets_witness:
  "\<exists>s. TypedCRF_init 2 [2, 3] (Some [1, 1]) None = Inr s
      \<and> sum_list (l_n_edge_states s) = 25
      \<and> unat (a_startindex_by_typ_typ s ! 1 ! 0) = edge_offset [2, 3] 1 0
      \<and> edge_offset [2, 3] 1 0 = 10
      \<and> (\<exists>!p. fst p < 2 \<and> snd p < 2
                 \<and> unat (a_startindex_by_typ_typ s ! fst p ! snd p) \<le> 12
                 \<and> 12 < unat (a_startindex_by_typ_typ s ! fst p ! snd p)
                         + l_n_states s ! fst p * l_n_states s ! snd p)"
proof -
  obtain s where s: "TypedCRF_init 2 [2, 3] (Some [1, 1]) None = Inr s"
    using init_ok [of 2 "[2, 3]" "[1, 1]"] by auto
  note f = init_fields [OF s]
  have tot: "sum_list (l_n_edge_states s) = 25"
    by (simp add: f(8))
  have e: "edge_offset [2, 3] 1 0 = 10"
    by (simp add: edge_offset_def numeral_2_eq_2)
  have small: "sum_list (l_n_edge_states s) < 2 ^ 32" "(12::nat) < sum_list (l_n_edge_states s)"
    "(1::nat) < 2" "(0::nat) < 2"
    by (simp_all add: tot)
  note c = edge_pair_offsets [OF s, THEN conjunct2, rule_format, OF small(1)]
  note c1 = c [THEN conjunct1, rule_format, OF small(3) small(4), THEN conjunct1]
  note c2 = c [THEN conjunct2, rule_format, OF small(2)]
  from c1 have a: "unat (a_startindex_by_typ_typ s ! 1 ! 0) = edge_offset [2, 3] 1 0"
    by (simp only: f(3))
  from s tot a e c2 show ?thesis by blast
qed

text \<open>
  The claim as stated fails for 65536 states of type 0 and one of type 1: the pair \<open>(0, 1)\<close> is
  preceded by \<open>65536 * 65536 = 2 ^ 32\<close> edge states, the stored offset is 0, and the sub-ranges of
  \<open>(0, 0)\<close> and \<open>(0, 1)\<close> both start at 0.
\<close>

theorem edge_pair_offsets_counterexample:
  "\<exists>s. TypedCRF_init 2 [65536, 1] (Some [1, 1]) None = Inr s
      \<and> edge_offset (l_n_states s) 0 1 = 4294967296
      \<and> unat (a_startindex_by_typ_typ s ! 0 ! 1) = 0
      \<and> unat (a_startindex_by_typ_typ s ! 0 ! 0) = 0"
proof -
  obtain s where s: "TypedCRF_init 2 [65536, 1] (Some [1, 1]) None = Inr s"
    using init_ok [of 2 "[65536, 1]" "[1, 1]"] by auto
  note f = init_fields [OF s]
  have e: "edge_offset [65536, 1] 0 1 = 4294967296" "edge_offset [65536, 1] 0 0 = 0"
    by (simp_all add: edge_offset_def)
  have l: "length [65536, 1::nat] = 2" by simp
  have "startindex_by_typ_typ (length [65536, 1::nat]) [65536, 1] ! 0 ! 1 = of_nat (edge_offset [65536, 1] 0 1)"
    by (rule startindex_entry) simp_all
  then have a1: "unat (a_startindex_by_typ_typ s ! 0 ! 1) = 0"
    unfolding l e f(9) [symmetric] by (simp only: unat_2_32)
  have "startindex_by_typ_typ (length [65536, 1::nat]) [65536, 1] ! 0 ! 0 = of_nat (edge_offset [65536, 1] 0 0)"
    by (rule startindex_entry) simp_all
  then have a0: "unat (a_startindex_by_typ_typ s ! 0 ! 0) = 0"
    unfolding l e f(9) [symmetric] by simp
  from e(1) have "edge_offset (l_n_states s) 0 1 = 4294967296"
    by (simp only: f(3))
  with s a1 a0 show ?thesis by blast
qed

subsection \<open>Unary potentials\<close>

lemma sizes_simps [simp]: "sizes [] = 0" "sizes ((f, n_st, n_ft) # ts) = n_st * n_ft + sizes ts"
  by (simp_all add: sizes_def)

lemma unary_loop_offset:
  "unary_loop ts w i acc = Inr (l, j) \<Longrightarrow> j = i + sizes ts"
proof (induction ts arbitrary: i acc)
  case Nil
  then show ?case by simp
next
  case (Cons a ts)
  obtain f n_st n_ft where a: "a = (f, n_st, n_ft)" by (cases a)
  from Cons.prems obtain u where "unary_loop ts w (i + n_st * n_ft) (acc @ [u]) = Inr (l, j)"
    by (auto simp: a bind_err_def Let_def split: sum.splits)
  from Cons.IH [OF this] show ?case by (simp add: a)
qed

lemma chunks_length [simp]: "length (chunks c r xs) = r"
  by (induction r arbitrary: xs) simp_all

lemma chunks_nth: "j < r \<Longrightarrow> chunks c r xs ! j = take c (drop (j * c) xs)"
proof (induction r arbitrary: xs j)
  case 0
  then show ?case by simp
next
  case (Suc r)
  then show ?case
    by (cases j) (simp_all add: add.commute)
qed

lemma dot_nth:
  assumes "length xs = m" "length ys = m"
  shows "dot xs ys = (\<Sum>k\<leftarrow>[0..<m]. xs ! k * ys ! k)"
proof -
  have "map2 (*) xs ys = map (\<lambda>k. xs ! k * ys ! k) [0..<m]"
    using assms by (intro nth_equalityI) simp_all
  then show ?thesis by (simp add: dot_def)
qed

lemma unary_step:
  assumes "n_cols f = n_ft" "wf_array2 f" "i + n_st * n_ft \<le> length w"
  shows "bind_err (reshape n_st n_ft (py_slice w i (i + n_st * n_ft))) (\<lambda>wm. np_dot f (transpose_T wm))
         = Inr (score_table w i (rows f) n_st n_ft)"
proof -
  let ?sl = "py_slice w i (i + n_st * n_ft)"
  have len: "length ?sl = n_st * n_ft"
    using assms(3) by (simp add: py_slice_def)
  have entry: "(\<Sum>k\<leftarrow>[0..<n_ft]. r ! k * (map (\<lambda>j. map (\<lambda>c. c ! j) (chunks n_ft n_st ?sl)) [0..<n_ft] ! k ! st))
             = dot r (py_slice w (i + st * n_ft) (i + (st + 1) * n_ft))"
    if r: "r \<in> set (rows f)" and st: "st < n_st" for r st
  proof -
    have lr: "length r = n_ft"
      using r assms(1,2) by (simp add: wf_array2_def list_all_iff)
    have "st * n_ft + n_ft \<le> n_st * n_ft"
      using st by (metis Suc_leI mult_Suc mult_le_mono1 add.commute)
    then have le: "i + st * n_ft + n_ft \<le> length w"
      using assms(3) by linarith
    then have ls: "length (py_slice w (i + st * n_ft) (i + (st + 1) * n_ft)) = n_ft"
      by (simp add: py_slice_def)
    have ch: "chunks n_ft n_st ?sl ! st = py_slice w (i + st * n_ft) (i + (st + 1) * n_ft)"
      using st le \<open>st * n_ft + n_ft \<le> n_st * n_ft\<close>
      by (simp add: chunks_nth py_slice_def take_drop add.commute min_def)
    have "(\<Sum>k\<leftarrow>[0..<n_ft]. r ! k * (map (\<lambda>j. map (\<lambda>c. c ! j) (chunks n_ft n_st ?sl)) [0..<n_ft] ! k ! st))
        = (\<Sum>k\<leftarrow>[0..<n_ft]. r ! k * (chunks n_ft n_st ?sl ! st ! k))"
      using st by (intro arg_cong [where f = sum_list] map_cong) simp_all
    then show ?thesis
      unfolding ch dot_nth [OF lr ls] .
  qed
  show ?thesis
    using assms(1) len
    by (simp add: reshape_def np_dot_def transpose_T_def shape0_def score_table_def entry cong: map_cong)
qed

lemma bind_err_assoc: "bind_err m (\<lambda>v. bind_err (g v) h) = bind_err (bind_err m g) h"
  by (simp add: bind_err_def split: sum.splits)

lemma unary_loop_ok:
  assumes "list_all (\<lambda>(f, n_st, n_ft). n_cols f = n_ft \<and> wf_array2 f) ts" "i + sizes ts \<le> length w"
  shows "unary_loop ts w i acc =
           Inr (acc @ map (\<lambda>t. case ts ! t of (f, n_st, n_ft) \<Rightarrow>
                                  score_table w (i + sizes (take t ts)) (rows f) n_st n_ft) [0..<length ts],
                i + sizes ts)"
  using assms
proof (induction ts arbitrary: i acc)
  case Nil
  then show ?case by simp
next
  case (Cons a ts)
  obtain f n_st n_ft where a: "a = (f, n_st, n_ft)" by (cases a)
  have f: "n_cols f = n_ft" "wf_array2 f" and rest: "list_all (\<lambda>(f, n_st, n_ft). n_cols f = n_ft \<and> wf_array2 f) ts"
    using Cons.prems(1) by (simp_all add: a)
  have le: "i + n_st * n_ft \<le> length w" "(i + n_st * n_ft) + sizes ts \<le> length w"
    using Cons.prems(2) by (simp_all add: a)
  have "unary_loop (a # ts) w i acc =
          bind_err (bind_err (reshape n_st n_ft (py_slice w i (i + n_st * n_ft))) (\<lambda>wm. np_dot f (transpose_T wm)))
            (\<lambda>u. unary_loop ts w (i + n_st * n_ft) (acc @ [u]))"
    by (simp add: a bind_err_assoc Let_def)
  also have "\<dots> = unary_loop ts w (i + n_st * n_ft) (acc @ [score_table w i (rows f) n_st n_ft])"
    by (simp add: unary_step [OF f le(1)])
  finally show ?case
    unfolding Cons.IH [OF rest le(2)]
    by (simp add: a map_upt_Suc add.assoc del: upt_Suc)
qed

lemma clean_length: "length (x0 x) = length (l_n_features s) \<Longrightarrow> length (get_node_features_clean s x) = length (x0 x)"
  by (simp add: get_node_features_clean_def)

lemma clean_nth:
  "t < length (x0 x) \<Longrightarrow> t < length (l_n_features s) \<Longrightarrow>
   get_node_features_clean s x ! t = (case x0 x ! t of None \<Rightarrow> Array2 (l_n_features s ! t) [] | Some a \<Rightarrow> a)"
  by (simp add: get_node_features_clean_def)

lemma sizes_take_zip:
  assumes "length fs = n" "length sts = n" "length fts = n" "t \<le> n"
  shows "sizes (take t (zip fs (zip sts fts))) = weight_offset sts fts t"
proof -
  have "sizes (take t (zip fs (zip sts fts))) = (\<Sum>u = 0..<t. take t (map (\<lambda>(f, n_st, n_ft). n_st * n_ft) (zip fs (zip sts fts))) ! u)"
    using assms by (simp add: sizes_def sum_list_sum_nth take_map min_def)
  also have "\<dots> = (\<Sum>u = 0..<t. sts ! u * fts ! u)"
    using assms by (intro sum.cong) simp_all
  finally show ?thesis
    by (simp add: weight_offset_def atLeast0LessThan)
qed

lemma set_size_joint_feature_sum:
  assumes "length sts = n" "length fts = n"
  shows "set_size_joint_feature sts fts = (\<Sum>t<n. sts ! t * fts ! t)"
proof -
  have "set_size_joint_feature sts fts = (\<Sum>u = 0..<n. map (\<lambda>(n_st, n_ft). n_st * n_ft) (zip sts fts) ! u)"
    using assms by (simp add: set_size_joint_feature_def sum_list_sum_nth)
  also have "\<dots> = (\<Sum>u = 0..<n. sts ! u * fts ! u)"
    using assms by (intro sum.cong) simp_all
  finally show ?thesis
    by (simp add: atLeast0LessThan)
qed

lemma sizes_zip:
  assumes "length fs = n" "length sts = n" "length fts = n"
  shows "sizes (zip fs (zip sts fts)) = set_size_joint_feature sts fts"
  using sizes_take_zip [OF assms, of n] assms
  by (simp add: set_size_joint_feature_sum weight_offset_def)

lemma unary_loop_result:
  assumes "TypedCRF_init n sts fts_opt lcw = Inr s"
    and "nodes_ok s x"
    and "length w = size_unaries s"
  shows "unary_loop (zip (get_node_features_clean s x) (zip (l_n_states s) (l_n_features s))) w 0 [] =
      Inr (map (\<lambda>t. score_table w (weight_offset (l_n_states s) (l_n_features s) t) (node_rows x t)
                        (l_n_states s ! t) (l_n_features s ! t)) [0..<n_types s],
           size_unaries s)"
proof -
  note f = init_fields [OF assms(1)]
  from f(4) obtain fts where fts: "fts_opt = Some fts" "length fts = n" "l_n_features s = fts" by blast
  let ?fs = "get_node_features_clean s x"
  let ?ts = "zip ?fs (zip sts fts)"
  have lx: "length (x0 x) = n"
    using assms(2) by (simp add: nodes_ok_def f(2))
  have lfs: "length ?fs = n"
    using lx fts by (simp add: clean_length)
  have lts: "length ?ts = n"
    using lfs f(1) fts(2) by simp
  have nth: "?ts ! t = (?fs ! t, sts ! t, fts ! t)" if "t < n" for t
    using that lfs f(1) fts(2) by simp
  have tab: "n_cols (?fs ! t) = fts ! t \<and> wf_array2 (?fs ! t) \<and> rows (?fs ! t) = node_rows x t" if "t < n" for t
    using that assms(2) lx fts
    by (auto simp: clean_nth nodes_ok_def f(2) node_rows_def wf_array2_def split: option.splits)
  have ok: "list_all (\<lambda>(f, n_st, n_ft). n_cols f = n_ft \<and> wf_array2 f) ?ts"
    unfolding list_all_length using lts nth tab by simp
  have total: "sizes ?ts = size_unaries s"
    using sizes_zip [OF lfs f(1) fts(2)] by (simp add: f(5) fts(3))
  have loop: "unary_loop ?ts w 0 [] =
      Inr (map (\<lambda>t. case ?ts ! t of (f, n_st, n_ft) \<Rightarrow> score_table w (sizes (take t ?ts)) (rows f) n_st n_ft) [0..<n],
           size_unaries s)"
    using unary_loop_ok [OF ok, of 0 w "[]"] assms(3) total lts by simp
  have tables: "map (\<lambda>t. case ?ts ! t of (f, n_st, n_ft) \<Rightarrow> score_table w (sizes (take t ?ts)) (rows f) n_st n_ft) [0..<n]
      = map (\<lambda>t. score_table w (weight_offset sts fts t) (node_rows x t) (sts ! t) (fts ! t)) [0..<n]"
    using nth tab sizes_take_zip [OF lfs f(1) fts(2)] by (intro map_cong) simp_all
  show ?thesis
    unfolding f(2) f(3) fts(3) loop tables ..
qed

lemma unary_loop_error:
  "unary_loop ts w i acc = Inl e \<Longrightarrow> e = ValueError CannotReshape \<or> e = ValueError ShapesNotAligned"
proof (induction ts arbitrary: i acc)
  case Nil
  then show ?case by simp
next
  case (Cons a ts)
  obtain f n_st n_ft where a: "a = (f, n_st, n_ft)" by (cases a)
  from Cons.prems Cons.IH show ?case
    by (auto simp: a bind_err_def Let_def reshape_def np_dot_def split: sum.splits if_splits)
qed

text \<open>
  Claim C1. For a constructed schema, an instance with one node feature table per type, each
  missing or of its type's width, and weights of length \<^verbatim>\<open>size_unaries\<close>, the potentials are one
  table per type in the order of the types; the table of type \<open>t\<close> has one row per node of the
  type and \<^verbatim>\<open>l_n_states[t]\<close> columns, and its entry \<open>(i, st)\<close> is the dot product of the feature
  vector of node \<open>i\<close> with \<^verbatim>\<open>w[w_off + st*n_features : w_off + (st+1)*n_features]\<close>, where
  \<^verbatim>\<open>w_off\<close> is the sum of \<^verbatim>\<open>states * features\<close> over the types before \<open>t\<close>. The witness is the
  scenario of the spec: weights \<open>[3, 5]\<close>, one node of each type with features \<open>[2]\<close> and \<open>[4]\<close>,
  potentials \<open>[[6]]\<close> and \<open>[[20]]\<close>.
\<close>

theorem unary_potentials:
  assumes "TypedCRF_init n sts fts_opt lcw = Inr s"
    and "nodes_ok s x"
    and "length w = size_unaries s"
  shows "get_unary_potentials s x w =
           Inr (map (\<lambda>t. Array2 (l_n_states s ! t)
                           (map (\<lambda>feat. map (\<lambda>st. dot feat
                                   (py_slice w (weight_offset (l_n_states s) (l_n_features s) t + st * l_n_features s ! t)
                                               (weight_offset (l_n_states s) (l_n_features s) t + (st + 1) * l_n_features s ! t)))
                                 [0..<l_n_states s ! t])
                              (node_rows x t)))
                  [0..<n_types s])"
proof -
  note f = init_fields [OF assms(1)]
  have "get_unary_potentials s x w =
      Inr (map (\<lambda>t. score_table w (weight_offset (l_n_states s) (l_n_features s) t) (node_rows x t)
                        (l_n_states s ! t) (l_n_features s ! t)) [0..<n_types s])"
    using assms(3)
    by (simp add: get_unary_potentials_def check_size_w_def f(6) unary_loop_result [OF assms])
  then show ?thesis
    by (simp add: score_table_def)
qed

theorem unary_potentials_witness:
  "\<exists>s. TypedCRF_init 2 [1, 1] (Some [1, 1]) None = Inr s
      \<and> nodes_ok s \<lparr>x0 = [Some (Array2 1 [[2]]), Some (Array2 1 [[4]])], x1 = []\<rparr>
      \<and> length [3, 5 :: real] = size_unaries s
      \<and> get_unary_potentials s \<lparr>x0 = [Some (Array2 1 [[2]]), Some (Array2 1 [[4]])], x1 = []\<rparr> [3, 5]
          = Inr [Array2 1 [[6]], Array2 1 [[20]]]"
proof -
  let ?x = "\<lparr>x0 = [Some (Array2 1 [[2]]), Some (Array2 1 [[4::real]])], x1 = []\<rparr>"
  obtain s where s: "TypedCRF_init 2 [1, 1] (Some [1, 1]) None = Inr s"
    using init_ok [of 2 "[1, 1]" "[1, 1]"] by auto
  note f = init_fields [OF s]
  have fts: "l_n_features s = [1, 1]"
    using f(4) by simp
  have ok: "nodes_ok s ?x"
    by (simp add: nodes_ok_def f(2) fts wf_array2_def less_Suc_eq numeral_2_eq_2)
  have len: "length [3, 5 :: real] = size_unaries s"
    by (simp add: f(5) fts set_size_joint_feature_def)
  have up: "[0..<2] = [0, 1]"
    by (simp add: numeral_2_eq_2)
  have "get_unary_potentials s ?x [3, 5] = Inr [Array2 1 [[6]], Array2 1 [[20]]]"
    unfolding unary_potentials [OF s ok len] f(2) f(3) fts up
    by (simp add: weight_offset_def node_rows_def dot_def py_slice_def)
  with s ok len show ?thesis by blast
qed

text \<open>
  Claim C2. For a constructed schema \<^verbatim>\<open>size_unaries\<close> is the sum over the types of
  \<^verbatim>\<open>states * features\<close>. Whenever the instance has one node feature table per type, a run of the
  loop of \<^verbatim>\<open>_get_unary_potentials\<close> that ends leaves \<^verbatim>\<open>i_w = size_unaries\<close>, so the assertion
  never fails; and under the preconditions (tables of the declared widths, weights of length
  \<^verbatim>\<open>size_unaries\<close>) the loop does end, with that offset.
\<close>

theorem unary_weights_consumed:
  assumes "TypedCRF_init n sts fts_opt lcw = Inr s"
  shows "size_unaries s = (\<Sum>t<n_types s. l_n_states s ! t * l_n_features s ! t)
       \<and> (length (x0 x) = n_types s \<longrightarrow>
            get_unary_potentials s x w \<noteq> Inl AssertionError
          \<and> (\<forall>l i_w. unary_loop (zip (get_node_features_clean s x) (zip (l_n_states s) (l_n_features s))) w 0 []
                        = Inr (l, i_w) \<longrightarrow> i_w = size_unaries s))
       \<and> (nodes_ok s x \<and> length w = size_unaries s \<longrightarrow>
            (\<exists>l. unary_loop (zip (get_node_features_clean s x) (zip (l_n_states s) (l_n_features s))) w 0 []
                   = Inr (l, size_unaries s)))"
proof (intro conjI impI allI)
  note f = init_fields [OF assms]
  from f(4) obtain fts where fts: "fts_opt = Some fts" "length fts = n" "l_n_features s = fts" by blast
  show "size_unaries s = (\<Sum>t<n_types s. l_n_states s ! t * l_n_features s ! t)"
    using set_size_joint_feature_sum [OF f(1) fts(2)] by (simp add: f(5) f(2) f(3) fts(3))
  {
    fix l i_w
    assume lx: "length (x0 x) = n_types s"
      and loop: "unary_loop (zip (get_node_features_clean s x) (zip (l_n_states s) (l_n_features s))) w 0 [] = Inr (l, i_w)"
    have "length (get_node_features_clean s x) = n"
      using lx fts by (simp add: clean_length f(2))
    from sizes_zip [OF this f(1) fts(2)] unary_loop_offset [OF loop]
    show "i_w = size_unaries s"
      by (simp add: f(3) f(5) fts(3))
  } note offset = this
  {
    assume lx: "length (x0 x) = n_types s"
    show "get_unary_potentials s x w \<noteq> Inl AssertionError"
    proof (cases "unary_loop (zip (get_node_features_clean s x) (zip (l_n_states s) (l_n_features s))) w 0 []")
      case (Inl e)
      with unary_loop_error [OF Inl] show ?thesis
        by (auto simp: get_unary_potentials_def check_size_w_def)
    next
      case (Inr r)
      obtain l i_w where r: "r = (l, i_w)" by (cases r)
      from offset [OF lx Inr [unfolded r]] Inr show ?thesis
        by (auto simp: get_unary_potentials_def check_size_w_def r)
    qed
  }
  {
    assume "nodes_ok s x \<and> length w = size_unaries s"
    then show "\<exists>l. unary_loop (zip (get_node_features_clean s x) (zip (l_n_states s) (l_n_features s))) w 0 []
                   = Inr (l, size_unaries s)"
      using unary_loop_result [OF assms, of x w] by simp
  }
qed

theorem unary_weights_consumed_witness:
  "\<exists>s. TypedCRF_init 2 [2, 3] (Some [4, 1]) None = Inr s
      \<and> size_unaries s = 11
      \<and> nodes_ok s \<lparr>x0 = [None, Some (Array2 1 [[4]])], x1 = []\<rparr>
      \<and> get_unary_potentials s \<lparr>x0 = [None, Some (Array2 1 [[4]])], x1 = []\<rparr> (replicate 11 1) \<noteq> Inl AssertionError
      \<and> (\<exists>l. unary_loop (zip (get_node_features_clean s \<lparr>x0 = [None, Some (Array2 1 [[4]])], x1 = []\<rparr>)
                          (zip (l_n_states s) (l_n_features s))) (replicate 11 1) 0 [] = Inr (l, 11))"
proof -
  let ?x = "\<lparr>x0 = [None, Some (Array2 1 [[4::real]])], x1 = []\<rparr>"
  obtain s where s: "TypedCRF_init 2 [2, 3] (Some [4, 1]) None = Inr s"
    using init_ok [of 2 "[2, 3]" "[4, 1]"] by auto
  note f = init_fields [OF s]
  have fts: "l_n_features s = [4, 1]"
    using f(4) by simp
  have ok: "nodes_ok s ?x"
    by (simp add: nodes_ok_def f(2) fts wf_array2_def less_Suc_eq numeral_2_eq_2)
  have sz: "size_unaries s = 11"
    by (simp add: f(5) fts set_size_joint_feature_def)
  have len: "length (replicate 11 (1::real)) = size_unaries s" "length (x0 ?x) = n_types s"
    by (simp_all add: sz f(2))
  note t = unary_weights_consumed [OF s, of ?x "replicate 11 1"]
  from t len have a: "get_unary_potentials s ?x (replicate 11 1) \<noteq> Inl AssertionError"
    by blast
  from t ok len have b: "\<exists>l. unary_loop (zip (get_node_features_clean s ?x) (zip (l_n_states s) (l_n_features s)))
        (replicate 11 1) 0 [] = Inr (l, 11)"
    unfolding sz by blast
  from s sz ok a b show ?thesis by blast
qed

subsection \<open>Label validation\<close>

lemma py_min_less:
  assumes "r \<noteq> []"
  shows "\<exists>lo. py_min r = Inr lo \<and> (\<forall>c. (lo < c) = (\<exists>y\<in>set r. y < c))"
proof -
  obtain y ys where r: "r = y # ys" using assms by (cases r) auto
  have "fold min ys y = Min (set r)"
    unfolding r by (rule Min.set_eq_fold [symmetric])
  moreover have "\<And>c. (Min (set r) < c) = (\<exists>y\<in>set r. y < c)"
    using assms by (simp add: Min_less_iff)
  ultimately show ?thesis
    by (simp add: py_min_def r)
qed

lemma py_max_ge:
  assumes "r \<noteq> []"
  shows "\<exists>hi. py_max r = Inr hi \<and> (\<forall>c. (hi \<ge> c) = (\<exists>y\<in>set r. y \<ge> c))"
proof -
  obtain y ys where r: "r = y # ys" using assms by (cases r) auto
  have "fold max ys y = Max (set r)"
    unfolding r by (rule Max.set_eq_fold [symmetric])
  moreover have "\<And>c. (Max (set r) \<ge> c) = (\<exists>y\<in>set r. y \<ge> c)"
    using assms by (simp add: Max_ge_iff)
  ultimately show ?thesis
    by (simp add: py_max_def r)
qed

lemma check_labels_head:
  "check_labels s ((typ, nf, n_st) # rest) Y i =
     (let r = take (shape0 nf) (drop i Y) in
      if r = [] then Inl (ValueError ZeroSizeReduction)
      else if \<exists>y\<in>set r. y < 0 then Inl (ValueError (NegativeLabel typ))
      else if \<exists>y\<in>set r. y < int (l_type_startindex s ! typ)
        then Inl (InconsistentLabel (LabelsStartAt typ (l_type_startindex s ! typ)))
      else if \<exists>y\<in>set r. y \<ge> int (l_type_startindex s ! (typ + 1))
        then Inl (InconsistentLabel (LabelsEndAt typ (int (l_type_startindex s ! (typ + 1)) - 1)))
      else check_labels s rest Y (i + shape0 nf))"
proof (cases "take (shape0 nf) (drop i Y) = []")
  case True
  show ?thesis
    unfolding check_labels.simps Let_def True by (simp add: py_min_def)
next
  case False
  from py_min_less [OF False] obtain lo where lo: "py_min (take (shape0 nf) (drop i Y)) = Inr lo"
    "\<And>c. (lo < c) = (\<exists>y\<in>set (take (shape0 nf) (drop i Y)). y < c)" by blast
  from py_max_ge [OF False] obtain hi where hi: "py_max (take (shape0 nf) (drop i Y)) = Inr hi"
    "\<And>c. (hi \<ge> c) = (\<exists>y\<in>set (take (shape0 nf) (drop i Y)). y \<ge> c)" by blast
  show ?thesis
    using False by (simp add: Let_def lo hi)
qed

lemma check_labels_skip:
  "j \<le> length its \<Longrightarrow> \<forall>u<j. item_ok s its Y i u \<Longrightarrow>
   check_labels s its Y i = check_labels s (drop j its) Y (i + sum_list (take j (counts its)))"
proof (induction its arbitrary: i j)
  case Nil
  then show ?case by simp
next
  case (Cons a its)
  obtain ty nf n_st where a: "a = (ty, nf, n_st)" by (cases a)
  show ?case
  proof (cases j)
    case 0
    then show ?thesis by simp
  next
    case (Suc j')
    have "item_ok s (a # its) Y i 0"
      using Cons.prems(2) Suc by simp
    then have head: "check_labels s (a # its) Y i = check_labels s its Y (i + shape0 nf)"
      unfolding a check_labels_head
      by (auto simp: item_ok_def item_run_def counts_def Let_def list_all_iff)
    have "\<forall>u<j'. item_ok s its Y (i + shape0 nf) u"
    proof (intro allI impI)
      fix u assume "u < j'"
      then have "item_ok s (a # its) Y i (Suc u)"
        using Cons.prems(2) Suc by simp
      then show "item_ok s its Y (i + shape0 nf) u"
        by (simp add: item_ok_def item_run_def counts_def a add.assoc)
    qed
    from Cons.IH [OF _ this] Cons.prems(1) Suc
    have "check_labels s its Y (i + shape0 nf)
        = check_labels s (drop j' its) Y (i + shape0 nf + sum_list (take j' (counts its)))"
      by simp
    then show ?thesis
      unfolding head by (simp add: Suc counts_def a add.assoc)
  qed
qed

lemma check_labels_at:
  assumes "j < length its" "\<forall>u<j. item_ok s its Y i u"
  shows "check_labels s its Y i =
     (let r = item_run its Y i j; ty = fst (its ! j) in
      if r = [] then Inl (ValueError ZeroSizeReduction)
      else if \<exists>y\<in>set r. y < 0 then Inl (ValueError (NegativeLabel ty))
      else if \<exists>y\<in>set r. y < int (l_type_startindex s ! ty)
        then Inl (InconsistentLabel (LabelsStartAt ty (l_type_startindex s ! ty)))
      else if \<exists>y\<in>set r. y \<ge> int (l_type_startindex s ! (ty + 1))
        then Inl (InconsistentLabel (LabelsEndAt ty (int (l_type_startindex s ! (ty + 1)) - 1)))
      else check_labels s (drop (Suc j) its) Y (i + sum_list (take (Suc j) (counts its))))"
proof -
  obtain ty nf n_st where it: "its ! j = (ty, nf, n_st)" by (cases "its ! j")
  have d: "drop j its = (ty, nf, n_st) # drop (Suc j) its"
    using assms(1) it by (simp add: Cons_nth_drop_Suc [symmetric])
  have c: "counts its ! j = shape0 nf"
    using assms(1) it by (simp add: counts_def)
  have sm: "sum_list (take (Suc j) (counts its)) = sum_list (take j (counts its)) + shape0 nf"
    using assms(1) c by (simp add: take_Suc_conv_app_nth counts_def)
  show ?thesis
    unfolding check_labels_skip [OF less_imp_le [OF assms(1)] assms(2)] d check_labels_head
    by (simp add: item_run_def c it sm add.assoc Let_def)
qed

lemma check_labels_all_ok:
  assumes "\<forall>u<length its. item_ok s its Y i u"
  shows "check_labels s its Y i = Inr ()"
  using check_labels_skip [OF le_refl assms] by simp

text \<open>The items of the loop for a constructed schema.\<close>

lemma label_items:
  fixes x :: typed_graph and Y :: "int list"
  assumes "TypedCRF_init n sts fts_opt lcw = Inr s"
  defines "its \<equiv> zip [0..<n_types s] (zip (get_node_features_clean s x) (l_n_states s))"
  shows "length its = n_runs s x"
    and "j < n_runs s x \<Longrightarrow> fst (its ! j) = j"
    and "j < n_runs s x \<Longrightarrow> counts its ! j = n_nodes x j"
    and "j \<le> n_runs s x \<Longrightarrow> sum_list (take j (counts its)) = (\<Sum>u<j. n_nodes x u)"
    and "j < n_runs s x \<Longrightarrow> item_run its Y 0 j = label_run x Y j"
    and "sum_list (map shape0 (get_node_features_clean s x)) = total_nodes s x"
proof -
  note f = init_fields [OF assms(1)]
  from f(4) obtain fts where fts: "fts_opt = Some fts" "length fts = n" "l_n_features s = fts" by blast
  let ?nfs = "get_node_features_clean s x"
  have lnfs: "length ?nfs = n_runs s x"
    by (simp add: get_node_features_clean_def n_runs_def fts f(2))
  show len: "length its = n_runs s x"
    by (simp add: its_def lnfs f n_runs_def)
  have nth: "its ! j = (j, ?nfs ! j, sts ! j)" if "j < n_runs s x" for j
    using that lnfs by (simp add: its_def f n_runs_def)
  have sh: "shape0 (?nfs ! j) = n_nodes x j" if "j < n_runs s x" for j
    using that
    by (simp add: clean_nth n_runs_def fts f(2) n_nodes_def node_rows_def shape0_def split: option.splits)
  show "fst (its ! j) = j" if "j < n_runs s x" for j
    using nth [OF that] by simp
  show c: "counts its ! j = n_nodes x j" if "j < n_runs s x" for j
    using that len nth [OF that] sh [OF that] by (simp add: counts_def)
  show pre: "sum_list (take j (counts its)) = (\<Sum>u<j. n_nodes x u)" if "j \<le> n_runs s x" for j
  proof -
    have "sum_list (take j (counts its)) = (\<Sum>u = 0..<j. take j (counts its) ! u)"
      using that len by (simp add: sum_list_sum_nth counts_def min_def)
    also have "\<dots> = (\<Sum>u = 0..<j. n_nodes x u)"
      using that c by (intro sum.cong) simp_all
    finally show ?thesis by (simp add: atLeast0LessThan)
  qed
  show "item_run its Y 0 j = label_run x Y j" if "j < n_runs s x" for j
    using that c [OF that] pre [of j] by (simp add: item_run_def label_run_def)
  have "map shape0 ?nfs = counts its"
    using lnfs len nth by (intro nth_equalityI) (simp_all add: counts_def)
  then show "sum_list (map shape0 ?nfs) = total_nodes s x"
    using pre [of "n_runs s x"] len by (simp add: total_nodes_def counts_def)
qed

lemma startindex_bounds:
  assumes "TypedCRF_init n sts fts_opt lcw = Inr s" "t \<le> n_types s"
  shows "l_type_startindex s ! t = type_label_bounds (l_n_states s) t"
proof -
  note f = init_fields [OF assms(1)]
  have "t < length [0..<n + 1]" using assms(2) f(2) by simp
  then have "map (\<lambda>i. sum_list (take i sts)) [0..<n + 1] ! t = sum_list (take t sts)"
    by (simp only: nth_map nth_upt add_0 length_upt)
  then show ?thesis
    by (simp add: f(7) f(3) type_label_bounds_def)
qed

lemma check_size_xy_Some:
  assumes "TypedCRF_init n sts fts_opt lcw = Inr s" "length Y = total_nodes s x"
  shows "check_size_xy s x (Some Y) =
     bind_err (check_labels s (zip [0..<n_types s] (zip (get_node_features_clean s x) (l_n_states s))) Y 0)
       (\<lambda>_. Inr (Some True))"
  using assms(2) label_items(6) [OF assms(1), where x = x]
  by (simp add: check_size_xy_def Let_def)

text \<open>Every label belongs to the run of some type.\<close>

lemma label_in_some_run:
  assumes "length Y = total_nodes s x" "p < length Y"
  shows "\<exists>t<n_runs s x. Y ! p \<in> set (label_run x Y t)"
proof -
  let ?cs = "map (n_nodes x) [0..<n_runs s x]"
  have pre: "sum_list (take j ?cs) = (\<Sum>u<j. n_nodes x u)" if "j \<le> n_runs s x" for j
  proof -
    have "take j ?cs = map (n_nodes x) [0..<j]"
      using that by (simp add: take_map min_def)
    then show ?thesis
      by (simp add: interv_sum_list_conv_sum_set_nat atLeast0LessThan)
  qed
  have "p < sum_list ?cs"
    using assms pre [of "n_runs s x"] by (simp add: total_nodes_def)
  from prefix_partition_ex [OF this] obtain t where t: "t < n_runs s x"
    "sum_list (take t ?cs) \<le> p" "p < sum_list (take t ?cs) + ?cs ! t" by auto
  let ?st = "\<Sum>u<t. n_nodes x u"
  have b: "?st \<le> p" "p < ?st + n_nodes x t"
    using t pre [of t] by simp_all
  have "label_run x Y t ! (p - ?st) = Y ! p"
    using b assms(2) by (simp add: label_run_def)
  moreover have "p - ?st < length (label_run x Y t)"
    using b assms(2) by (simp add: label_run_def) linarith
  ultimately have "Y ! p \<in> set (label_run x Y t)"
    by (metis nth_mem)
  with t(1) show ?thesis by blast
qed

lemma item_ok_iff:
  fixes x :: typed_graph and Y :: "int list"
  assumes "TypedCRF_init n sts fts_opt lcw = Inr s" "t < n_runs s x"
  shows "item_ok s (zip [0..<n_types s] (zip (get_node_features_clean s x) (l_n_states s))) Y 0 t
       = (label_run x Y t \<noteq> [] \<and> run_in_range s x Y t)"
proof -
  have le: "t \<le> n_types s" "t + 1 \<le> n_types s"
    using assms(2) by (simp_all add: n_runs_def)
  show ?thesis
    unfolding item_ok_def label_items(5) [OF assms] label_items(2) [OF assms]
      startindex_bounds [OF assms(1) le(1)] startindex_bounds [OF assms(1) le(2)] run_in_range_def
    by (auto simp: list_all_iff)
qed

lemma run_end_le_total:
  assumes "t < n_runs s x"
  shows "(\<Sum>u<t. n_nodes x u) + n_nodes x t \<le> total_nodes s x"
proof -
  have "(\<Sum>u<Suc t. n_nodes x u) \<le> (\<Sum>u<n_runs s x. n_nodes x u)"
    using assms by (intro sum_mono2) auto
  then show ?thesis by (simp add: total_nodes_def)
qed

lemma label_run_length:
  assumes "t < n_runs s x" "length Y = total_nodes s x"
  shows "length (label_run x Y t) = n_nodes x t"
  using run_end_le_total [OF assms(1)] assms(2) by (simp add: label_run_def)

lemma example_schema:
  "\<exists>s. TypedCRF_init 2 [2, 3] (Some [1, 1]) None = Inr s"
  using init_ok [of 2 "[2, 3]" "[1, 1]"] by simp

lemma example_runs:
  assumes "TypedCRF_init 2 [2, 3] (Some [1, 1]) None = Inr s"
    and "x = \<lparr>x0 = [Some (Array2 1 [[1], [2]]), Some (Array2 1 [[3], [4], [5]])], x1 = replicate 4 None\<rparr>"
  shows "n_runs s x = 2" "total_nodes s x = 5"
    "label_run x [a, b, c, d, e] 0 = [a, b]" "label_run x [a, b, c, d, e] 1 = [c, d, e]"
    "type_label_bounds (l_n_states s) 0 = 0" "type_label_bounds (l_n_states s) 1 = 2"
    "type_label_bounds (l_n_states s) 2 = 5"
    "type_label_bounds (l_n_states s) (Suc (Suc 0)) = 5"
proof -
  note f = init_fields [OF assms(1)]
  show r: "n_runs s x = 2"
    by (simp add: n_runs_def f(2) assms(2))
  have n: "n_nodes x 0 = 2" "n_nodes x 1 = 3" "n_nodes x (Suc 0) = 3"
    by (simp_all add: n_nodes_def node_rows_def assms(2))
  show "total_nodes s x = 5"
    by (simp add: total_nodes_def r n numeral_2_eq_2)
  show "label_run x [a, b, c, d, e] 0 = [a, b]" "label_run x [a, b, c, d, e] 1 = [c, d, e]"
    by (simp_all add: label_run_def n)
  show "type_label_bounds (l_n_states s) 0 = 0" "type_label_bounds (l_n_states s) 1 = 2"
    "type_label_bounds (l_n_states s) 2 = 5"
    "type_label_bounds (l_n_states s) (Suc (Suc 0)) = 5"
    by (simp_all add: type_label_bounds_def f(3) numeral_2_eq_2)
qed

text \<open>
  Claim C4, as amended. For a constructed schema and a label vector of the right length that
  holds a negative value, \<^verbatim>\<open>_check_size_xy\<close> never returns: it raises an error. The error is
  \<^verbatim>\<open>ValueError("Got a negative label for type t")\<close>, not \<^verbatim>\<open>InconsistentLabel\<close>, for the type \<open>t\<close>
  whose run holds a negative value when the runs of all earlier types are non-empty and within
  their ranges.
\<close>

theorem negative_label_rejected:
  assumes "TypedCRF_init n sts fts_opt lcw = Inr s"
    and "length Y = total_nodes s x"
    and "\<exists>y\<in>set Y. y < 0"
  shows "(\<exists>e. check_size_xy s x (Some Y) = Inl e)
       \<and> (\<forall>t<n_runs s x.
            (\<exists>y\<in>set (label_run x Y t). y < 0)
            \<and> (\<forall>u<t. label_run x Y u \<noteq> [] \<and> run_in_range s x Y u)
            \<longrightarrow> check_size_xy s x (Some Y) = Inl (ValueError (NegativeLabel t)))"
proof (intro conjI allI impI)
  let ?its = "zip [0..<n_types s] (zip (get_node_features_clean s x) (l_n_states s))"
  note xy = check_size_xy_Some [OF assms(1,2)]
  note li = label_items [OF assms(1), where x = x]
  {
    fix t
    assume t: "t < n_runs s x"
      and h: "(\<exists>y\<in>set (label_run x Y t). y < 0) \<and> (\<forall>u<t. label_run x Y u \<noteq> [] \<and> run_in_range s x Y u)"
    have ok: "\<forall>u<t. item_ok s ?its Y 0 u"
      using h t item_ok_iff [OF assms(1)] by simp
    have "t < length ?its" using t li(1) by simp
    from check_labels_at [OF this ok] h
    show "check_size_xy s x (Some Y) = Inl (ValueError (NegativeLabel t))"
      unfolding xy li(5) [OF t] li(2) [OF t] by (auto simp: Let_def)
  }
  from assms(3) obtain p where p: "p < length Y" "Y ! p < 0"
    by (auto simp: in_set_conv_nth)
  from label_in_some_run [OF assms(2) p(1)] p(2) obtain j where j: "j < n_runs s x"
    "\<exists>y\<in>set (label_run x Y j). y < 0" by blast
  have bad: "\<not> item_ok s ?its Y 0 j"
  proof
    assume "item_ok s ?its Y 0 j"
    then have "\<forall>y\<in>set (label_run x Y j). 0 \<le> y"
      by (simp add: item_ok_def li(5) [OF j(1)] list_all_iff)
    with j(2) show False by force
  qed
  define t where "t = (LEAST j. \<not> item_ok s ?its Y 0 j)"
  have nt: "\<not> item_ok s ?its Y 0 t"
    unfolding t_def using bad by (rule LeastI)
  have "t \<le> j"
    unfolding t_def using bad by (rule Least_le)
  with j(1) have tl: "t < length ?its" using li(1) by simp
  have ok: "\<forall>u<t. item_ok s ?its Y 0 u"
    unfolding t_def using not_less_Least by blast
  from check_labels_at [OF tl ok] nt
  have "\<exists>e. check_labels s ?its Y 0 = Inl e"
    by (auto simp: Let_def item_ok_def list_all_iff not_le not_less)
  then show "\<exists>e. check_size_xy s x (Some Y) = Inl e"
    unfolding xy by auto
qed

theorem negative_label_rejected_witness:
  "\<exists>s. TypedCRF_init 2 [2, 3] (Some [1, 1]) None = Inr s
     \<and> check_size_xy s \<lparr>x0 = [Some (Array2 1 [[1], [2]]), Some (Array2 1 [[3], [4], [5]])], x1 = replicate 4 None\<rparr>
          (Some [0, 1, 2, - 4, 3]) = Inl (ValueError (NegativeLabel 1))"
proof -
  define x where "x = \<lparr>x0 = [Some (Array2 1 [[1], [2]]), Some (Array2 1 [[3], [4], [5::real]])], x1 = replicate 4 None\<rparr>"
  obtain s where s: "TypedCRF_init 2 [2, 3] (Some [1, 1]) None = Inr s"
    using example_schema by blast
  note r = example_runs [OF s x_def]
  have len: "length [0, 1, 2, - 4, 3 :: int] = total_nodes s x"
    by (simp add: r)
  have neg: "\<exists>y\<in>set [0, 1, 2, - 4, 3 :: int]. y < 0"
    by simp
  have t: "1 < n_runs s x"
    by (simp add: r)
  have h: "(\<exists>y\<in>set (label_run x [0, 1, 2, - 4, 3] 1). y < 0)
         \<and> (\<forall>u<1. label_run x [0, 1, 2, - 4, 3] u \<noteq> [] \<and> run_in_range s x [0, 1, 2, - 4, 3] u)"
    by (simp add: r r [unfolded One_nat_def] run_in_range_def)
  from negative_label_rejected [OF s len neg, THEN conjunct2, rule_format, OF t h] s
  show ?thesis
    unfolding x_def by blast
qed

text \<open>
  The claim as stated has \<^verbatim>\<open>InconsistentLabel\<close> raised; line 201 raises \<^verbatim>\<open>ValueError\<close>.
\<close>

theorem negative_label_rejected_counterexample:
  "\<exists>s. TypedCRF_init 1 [2] (Some [1]) None = Inr s
     \<and> check_size_xy s \<lparr>x0 = [Some (Array2 1 [[1]])], x1 = [None]\<rparr> (Some [- 1])
         = Inl (ValueError (NegativeLabel 0))"
proof -
  obtain s where s: "TypedCRF_init 1 [2] (Some [1]) None = Inr s"
    using init_ok [of 1 "[2]" "[1]"] by auto
  note f = init_fields [OF s]
  have fts: "l_n_features s = [1]" using f(4) by simp
  have "check_size_xy s \<lparr>x0 = [Some (Array2 1 [[1]])], x1 = [None]\<rparr> (Some [- 1])
         = Inl (ValueError (NegativeLabel 0))"
    by (simp add: check_size_xy_def get_node_features_clean_def fts f(2) f(3) shape0_def py_min_def Let_def)
  with s show ?thesis by blast
qed

text \<open>
  Claim C3 fails on the code for an instance with a type that has no node. The run of that type
  is empty, \<^verbatim>\<open>np.min\<close> of it raises \<^verbatim>\<open>ValueError\<close>, and the labels of the other types are never
  looked at: here type 0 has no node (a missing table, or an empty one), type 1 has one, and both
  the label 0 (outside the range \<open>[2, 5)\<close> of type 1) and the label 2 (inside it) end in that
  \<^verbatim>\<open>ValueError\<close>.
\<close>

theorem empty_run_rejected:
  "\<exists>s. TypedCRF_init 2 [2, 3] (Some [1, 1]) None = Inr s
     \<and> check_size_xy s \<lparr>x0 = [None, Some (Array2 1 [[1]])], x1 = replicate 4 None\<rparr> (Some [0])
         = Inl (ValueError ZeroSizeReduction)
     \<and> check_size_xy s \<lparr>x0 = [None, Some (Array2 1 [[1]])], x1 = replicate 4 None\<rparr> (Some [2])
         = Inl (ValueError ZeroSizeReduction)
     \<and> check_size_xy s \<lparr>x0 = [Some (Array2 1 []), Some (Array2 1 [[1]])], x1 = replicate 4 None\<rparr> (Some [2])
         = Inl (ValueError ZeroSizeReduction)"
proof -
  obtain s where s: "TypedCRF_init 2 [2, 3] (Some [1, 1]) None = Inr s"
    using example_schema by blast
  note f = init_fields [OF s]
  have fts: "l_n_features s = [1, 1]" using f(4) by simp
  have up: "[0..<2] = [0, 1]" by (simp add: numeral_2_eq_2)
  have "check_size_xy s \<lparr>x0 = [None, Some (Array2 1 [[1]])], x1 = replicate 4 None\<rparr> (Some [0])
         = Inl (ValueError ZeroSizeReduction)"
    "check_size_xy s \<lparr>x0 = [None, Some (Array2 1 [[1]])], x1 = replicate 4 None\<rparr> (Some [2])
         = Inl (ValueError ZeroSizeReduction)"
    "check_size_xy s \<lparr>x0 = [Some (Array2 1 []), Some (Array2 1 [[1]])], x1 = replicate 4 None\<rparr> (Some [2])
         = Inl (ValueError ZeroSizeReduction)"
    by (simp_all add: check_size_xy_def get_node_features_clean_def fts f(2) f(3) shape0_def py_min_def Let_def up)
  with s show ?thesis by blast
qed

text \<open>
  What claim C3 says holds when every type has at least one node. For a constructed schema, a
  label vector of the right length with no negative value, \<^verbatim>\<open>_check_size_xy\<close> raises
  \<^verbatim>\<open>InconsistentLabel\<close> if and only if the run of some type holds a value below
  \<^verbatim>\<open>type_label_bounds[t]\<close> or at least \<^verbatim>\<open>type_label_bounds[t+1]\<close>, and returns \<^verbatim>\<open>True\<close> when no
  run does. The witness is the scenario of the spec: states \<open>[2, 3]\<close>, bounds \<open>[0, 2, 5]\<close>, two
  and three nodes; \<open>[0, 1, 2, 4, 3]\<close> is accepted and \<open>[0, 1, 1, 4, 3]\<close> raises
  \<^verbatim>\<open>InconsistentLabel\<close>.
\<close>

theorem label_ranges_checked:
  assumes "TypedCRF_init n sts fts_opt lcw = Inr s"
    and "length Y = total_nodes s x"
    and "\<forall>y\<in>set Y. 0 \<le> y"
    and "\<forall>t<n_runs s x. 0 < n_nodes x t"
  shows "((\<exists>m. check_size_xy s x (Some Y) = Inl (InconsistentLabel m)) = (\<exists>t<n_runs s x. \<not> run_in_range s x Y t))
       \<and> ((\<forall>t<n_runs s x. run_in_range s x Y t) \<longrightarrow> check_size_xy s x (Some Y) = Inr (Some True))"
proof -
  let ?its = "zip [0..<n_types s] (zip (get_node_features_clean s x) (l_n_states s))"
  note xy = check_size_xy_Some [OF assms(1,2)]
  note li = label_items [OF assms(1), where x = x]
  have ne: "label_run x Y t \<noteq> []" if "t < n_runs s x" for t
    using label_run_length [OF that assms(2)] assms(4) that by auto
  have ok: "item_ok s ?its Y 0 t = run_in_range s x Y t" if "t < n_runs s x" for t
    using item_ok_iff [OF assms(1) that] ne [OF that] by simp
  have pos: "\<forall>y\<in>set (label_run x Y t). 0 \<le> y" for t
    using assms(3) by (auto simp: label_run_def dest!: in_set_takeD in_set_dropD)
  show ?thesis
  proof (cases "\<forall>t<n_runs s x. run_in_range s x Y t")
    case True
    then have "\<forall>u<length ?its. item_ok s ?its Y 0 u"
      using ok li(1) by simp
    from check_labels_all_ok [OF this] True show ?thesis
      unfolding xy by simp
  next
    case False
    then obtain j where j: "j < n_runs s x" "\<not> item_ok s ?its Y 0 j"
      using ok by blast
    define t where "t = (LEAST j. \<not> item_ok s ?its Y 0 j)"
    have nt: "\<not> item_ok s ?its Y 0 t"
      unfolding t_def using j(2) by (rule LeastI)
    have "t \<le> j"
      unfolding t_def using j(2) by (rule Least_le)
    with j(1) have tr: "t < n_runs s x" by simp
    then have tl: "t < length ?its" using li(1) by simp
    have before: "\<forall>u<t. item_ok s ?its Y 0 u"
      unfolding t_def using not_less_Least by blast
    have "\<exists>m. check_labels s ?its Y 0 = Inl (InconsistentLabel m)"
      using check_labels_at [OF tl before] nt ne [OF tr] pos [of t]
      unfolding li(5) [OF tr] li(2) [OF tr]
      by (auto simp: Let_def item_ok_def li(5) [OF tr] li(2) [OF tr] list_all_iff not_le not_less)
    then have "\<exists>m. check_size_xy s x (Some Y) = Inl (InconsistentLabel m)"
      unfolding xy by auto
    with False show ?thesis by blast
  qed
qed

theorem label_ranges_checked_witness:
  "\<exists>s. TypedCRF_init 2 [2, 3] (Some [1, 1]) None = Inr s
     \<and> type_label_bounds (l_n_states s) 0 = 0 \<and> type_label_bounds (l_n_states s) 1 = 2
     \<and> type_label_bounds (l_n_states s) 2 = 5
     \<and> check_size_xy s \<lparr>x0 = [Some (Array2 1 [[1], [2]]), Some (Array2 1 [[3], [4], [5]])], x1 = replicate 4 None\<rparr>
          (Some [0, 1, 2, 4, 3]) = Inr (Some True)
     \<and> (\<exists>m. check_size_xy s \<lparr>x0 = [Some (Array2 1 [[1], [2]]), Some (Array2 1 [[3], [4], [5]])], x1 = replicate 4 None\<rparr>
          (Some [0, 1, 1, 4, 3]) = Inl (InconsistentLabel m))"
proof -
  define x where "x = \<lparr>x0 = [Some (Array2 1 [[1], [2]]), Some (Array2 1 [[3], [4], [5::real]])], x1 = replicate 4 None\<rparr>"
  obtain s where s: "TypedCRF_init 2 [2, 3] (Some [1, 1]) None = Inr s"
    using example_schema by blast
  note r = example_runs [OF s x_def]
  note r' = r [unfolded One_nat_def]
  have nn: "\<forall>t<n_runs s x. 0 < n_nodes x t"
    unfolding r(1) by (simp add: n_nodes_def node_rows_def x_def less_Suc_eq numeral_2_eq_2)
  have len: "length [0, 1, 2, 4, 3 :: int] = total_nodes s x" "length [0, 1, 1, 4, 3 :: int] = total_nodes s x"
    by (simp_all add: r)
  have pos: "\<forall>y\<in>set [0, 1, 2, 4, 3 :: int]. 0 \<le> y" "\<forall>y\<in>set [0, 1, 1, 4, 3 :: int]. 0 \<le> y"
    by simp_all
  have good: "\<forall>t<n_runs s x. run_in_range s x [0, 1, 2, 4, 3] t"
    unfolding r(1) by (auto dest!: less_2_cases simp: r r' run_in_range_def)
  have bad: "\<exists>t<n_runs s x. \<not> run_in_range s x [0, 1, 1, 4, 3] t"
    unfolding r(1) by (rule exI [of _ 1]) (simp add: r r' run_in_range_def)
  from label_ranges_checked [OF s len(1) pos(1) nn] good
  have a: "check_size_xy s x (Some [0, 1, 2, 4, 3]) = Inr (Some True)" by blast
  from label_ranges_checked [OF s len(2) pos(2) nn] bad
  have b: "\<exists>m. check_size_xy s x (Some [0, 1, 1, 4, 3]) = Inl (InconsistentLabel m)" by blast
  from s r(5,6,7) a b show ?thesis
    unfolding x_def by blast
qed

subsection \<open>Instance validation\<close>

lemma check_type_pair_eval:
  assumes "t1 * n_types s + t2 < length (x1 x)"
    and "t1 < length (x0 x)" "x0 x ! t1 = Some a1"
    and "t2 < length (x0 x)" "x0 x ! t2 = Some a2"
    and "edge_shape_ok (edge_table s x t1 t2)"
  shows "check_type_pair s x (t1, t2) =
     (if has_negative (edge_table s x t1 t2) then Inl (ValueError (NegativeNodeIndex t1 t2))
      else if source_out x t1 (edge_table s x t1 t2) then Inl (ValueError (StartsFromNonExisting t1 t2))
      else if target_out x t2 (edge_table s x t1 t2) then Inl (ValueError (PointsToNonExisting t1 t2))
      else Inr ())"
proof (cases "edge_table s x t1 t2")
  case None
  then show ?thesis
    using assms(1)
    by (simp add: check_type_pair_def get_edges_by_type_def edge_table_def has_negative_def
        source_out_def target_out_def)
next
  case (Some edges)
  with assms(6) obtain a where a: "edges = Edges2 a" "n_cols a = 2"
    by (cases edges) simp_all
  have get: "get_edges_by_type s x t1 t2 = Inr (Some (Edges2 a))"
    using assms(1) Some a(1) by (simp add: get_edges_by_type_def edge_table_def)
  have cnt: "node_count x t1 = Inr (n_nodes x t1)" "node_count x t2 = Inr (n_nodes x t2)"
    using assms(2-5) by (simp_all add: node_count_def n_nodes_def node_rows_def shape0_def)
  show ?thesis
  proof (cases "rows a = []")
    case True
    then show ?thesis
      using Some a
      by (simp add: check_type_pair_def get shape0_def has_negative_def source_out_def target_out_def)
  next
    case False
    let ?n1 = "map (\<lambda>r. r ! 0) (rows a)" and ?n2 = "map (\<lambda>r. r ! 1) (rows a)"
    have ne: "?n1 \<noteq> []" "?n2 \<noteq> []" using False by simp_all
    from py_min_less [OF ne(1)] obtain min1 where min1: "py_min ?n1 = Inr min1"
      "\<And>c. (min1 < c) = (\<exists>y\<in>set ?n1. y < c)" by blast
    from py_min_less [OF ne(2)] obtain min2 where min2: "py_min ?n2 = Inr min2"
      "\<And>c. (min2 < c) = (\<exists>y\<in>set ?n2. y < c)" by blast
    from py_max_ge [OF ne(1)] obtain max1 where max1: "py_max ?n1 = Inr max1"
      "\<And>c. (max1 \<ge> c) = (\<exists>y\<in>set ?n1. y \<ge> c)" by blast
    from py_max_ge [OF ne(2)] obtain max2 where max2: "py_max ?n2 = Inr max2"
      "\<And>c. (max2 \<ge> c) = (\<exists>y\<in>set ?n2. y \<ge> c)" by blast
    have neg: "has_negative (edge_table s x t1 t2) = (min1 < 0 \<or> min2 < 0)"
      unfolding min1(2) min2(2) by (auto simp: has_negative_def Some a(1) list_ex_iff)
    have src: "source_out x t1 (edge_table s x t1 t2) = (max1 \<ge> int (n_nodes x t1))"
      unfolding max1(2) by (auto simp: source_out_def Some a(1) list_ex_iff)
    have tgt: "target_out x t2 (edge_table s x t1 t2) = (max2 \<ge> int (n_nodes x t2))"
      unfolding max2(2) by (auto simp: target_out_def Some a(1) list_ex_iff)
    have col: "column 0 (Edges2 a) = Inr ?n1" "column 1 (Edges2 a) = Inr ?n2"
      using a(2) by (simp_all add: column_def)
    show ?thesis
      unfolding neg src tgt using False
      by (simp add: check_type_pair_def get shape0_def col min1(1) min2(1) max1(1) max2(1) cnt
          del: One_nat_def)
  qed
qed

lemma check_features_ok:
  "(\<forall>j<length ts. \<exists>a. ts ! j = Some a \<and> n_cols a = l_n_features s ! (k + j))
   \<Longrightarrow> check_features s (enumerate k ts) = Inr ()"
proof (induction ts arbitrary: k)
  case Nil
  then show ?case by simp
next
  case (Cons t ts)
  from Cons.prems [rule_format, of 0] obtain a where a: "t = Some a" "n_cols a = l_n_features s ! k"
    by auto
  have "\<forall>j<length ts. \<exists>a. ts ! j = Some a \<and> n_cols a = l_n_features s ! (Suc k + j)"
    using Cons.prems by (auto dest: spec [of _ "Suc _"])
  from Cons.IH [OF this] show ?case
    by (simp add: a)
qed

lemma check_edges_shape_ok:
  "list_all edge_shape_ok es \<Longrightarrow> check_edges_shape es = Inr ()"
  by (induction es rule: check_edges_shape.induct) (auto split: edge_array.splits)


lemma check_type_pairs_ok:
  "(\<forall>p\<in>set ps. check_type_pair s x p = Inr ()) \<Longrightarrow> check_type_pairs s x ps = Inr ()"
  by (induction ps) simp_all

lemma check_type_pairs_first:
  "(\<forall>q\<in>set ps1. check_type_pair s x q = Inr ()) \<Longrightarrow> check_type_pair s x p = Inl e
   \<Longrightarrow> check_type_pairs s x (ps1 @ p # ps2) = Inl e"
  by (induction ps1) simp_all

lemma iter_type_pairs_product:
  "iter_type_pairs s = List.product [0..<n_types s] [0..<n_types s]"
  by (simp add: iter_type_pairs_def product_concat_map)

lemma iter_type_pairs_length: "length (iter_type_pairs s) = n_types s * n_types s"
  by (simp add: iter_type_pairs_product)

lemma iter_type_pairs_nth:
  assumes "a < n_types s" "b < n_types s"
  shows "a * n_types s + b < n_types s * n_types s"
    and "iter_type_pairs s ! (a * n_types s + b) = (a, b)"
proof -
  have "a * n_types s + b < a * n_types s + n_types s"
    using assms(2) by simp
  also have "\<dots> = Suc a * n_types s" by simp
  also have "\<dots> \<le> n_types s * n_types s"
    using assms(1) by (metis Suc_leI mult_le_mono1)
  finally show lt: "a * n_types s + b < n_types s * n_types s" .
  then show "iter_type_pairs s ! (a * n_types s + b) = (a, b)"
    using assms by (simp add: iter_type_pairs_product product_nth)
qed

lemma iter_type_pairs_set:
  "p \<in> set (iter_type_pairs s) \<Longrightarrow> fst p < n_types s \<and> snd p < n_types s"
  by (auto simp: iter_type_pairs_product)

lemma iter_type_pairs_index:
  assumes "k < n_types s * n_types s"
  shows "\<exists>a b. a < n_types s \<and> b < n_types s \<and> k = a * n_types s + b \<and> iter_type_pairs s ! k = (a, b)"
proof -
  have n: "0 < n_types s" using assms by (cases "n_types s") auto
  let ?a = "k div n_types s" and ?b = "k mod n_types s"
  have "?a < n_types s"
    using assms by (simp add: less_mult_imp_div_less)
  moreover have "?b < n_types s" using n by simp
  moreover have "k = ?a * n_types s + ?b" by simp
  ultimately show ?thesis
    using iter_type_pairs_nth(2) [of ?a s ?b] by metis
qed

text \<open>The pair check of a structurally valid instance.\<close>

lemma structure_pair:
  assumes "structure_ok s x" "t1 < n_types s" "t2 < n_types s"
  shows "check_type_pair s x (t1, t2) =
     (if has_negative (edge_table s x t1 t2) then Inl (ValueError (NegativeNodeIndex t1 t2))
      else if source_out x t1 (edge_table s x t1 t2) then Inl (ValueError (StartsFromNonExisting t1 t2))
      else if target_out x t2 (edge_table s x t1 t2) then Inl (ValueError (PointsToNonExisting t1 t2))
      else Inr ())"
proof -
  from assms obtain a1 a2 where a: "x0 x ! t1 = Some a1" "x0 x ! t2 = Some a2"
    unfolding structure_ok_def by blast
  have l: "t1 < length (x0 x)" "t2 < length (x0 x)"
    using assms by (simp_all add: structure_ok_def)
  have k: "t1 * n_types s + t2 < length (x1 x)"
    using iter_type_pairs_nth(1) [OF assms(2,3)] assms(1) by (simp add: structure_ok_def)
  then have "edge_shape_ok (edge_table s x t1 t2)"
    using assms(1) by (simp add: structure_ok_def edge_table_def list_all_length)
  from check_type_pair_eval [OF k l(1) a(1) l(2) a(2) this] show ?thesis .
qed

lemma structure_prefix:
  assumes "structure_ok s x"
  shows "check_size_x s x = bind_err (check_type_pairs s x (iter_type_pairs s)) (\<lambda>_. Inr True)"
proof -
  have "check_features s (enumerate 0 (x0 x)) = Inr ()"
    using assms by (intro check_features_ok) (simp add: structure_ok_def)
  moreover have "check_edges_shape (x1 x) = Inr ()"
    using assms by (intro check_edges_shape_ok) (simp add: structure_ok_def)
  ultimately show ?thesis
    using assms by (simp add: check_size_x_def structure_ok_def)
qed

lemma pair_index_inj:
  assumes "b < n" "b' < n" "a * n + b = a' * n + (b'::nat)"
  shows "a = a' \<and> b = b'"
proof -
  have "(a * n + b) div n = a" "(a' * n + b') div n = a'" "(a * n + b) mod n = b" "(a' * n + b') mod n = b'"
    using assms(1,2) by simp_all
  with assms(3) show ?thesis by metis
qed

lemma example_graph:
  assumes "TypedCRF_init 2 [2, 3] (Some [1, 1]) None = Inr s"
    and "x0 x = [Some (Array2 1 [[1], [2]]), Some (Array2 1 [[3], [4], [5]])]"
    and "length (x1 x) = 4" "list_all edge_shape_ok (x1 x)"
  shows "structure_ok s x" "n_types s = 2" "n_nodes x 0 = 2" "n_nodes x 1 = 3" "n_nodes x (Suc 0) = 3"
    "edge_table s x 0 0 = x1 x ! 0" "edge_table s x 0 1 = x1 x ! 1"
    "edge_table s x 1 0 = x1 x ! 2" "edge_table s x 1 1 = x1 x ! 3"
proof -
  note f = init_fields [OF assms(1)]
  have fts: "l_n_features s = [1, 1]" using f(4) by simp
  show "n_types s = 2" by (rule f(2))
  have "\<forall>t<2. \<exists>a. x0 x ! t = Some a \<and> n_cols a = l_n_features s ! t"
    by (auto dest!: less_2_cases simp: assms(2) fts)
  then show "structure_ok s x"
    using assms(3,4) by (simp add: structure_ok_def f(2) assms(2))
  show "n_nodes x 0 = 2" "n_nodes x 1 = 3" "n_nodes x (Suc 0) = 3"
    by (simp_all add: n_nodes_def node_rows_def assms(2))
  show "edge_table s x 0 0 = x1 x ! 0" "edge_table s x 0 1 = x1 x ! 1"
    "edge_table s x 1 0 = x1 x ! 2" "edge_table s x 1 1 = x1 x ! 3"
    by (simp_all add: edge_table_def f(2))
qed

text \<open>
  Claim C5. An instance with one node feature table of the declared width per type, an edge table
  for every ordered pair of types, every edge table missing or of two columns, and no edge with a
  negative or out-of-range endpoint passes \<^verbatim>\<open>_check_size_x\<close>: the result is \<^verbatim>\<open>True\<close> and no error is
  raised. The function only reads the instance (no statement of the source assigns into \<^verbatim>\<open>x\<close>),
  so its embedding returns the result alone and the instance is the caller's unchanged value.
\<close>

theorem valid_instance_accepted:
  assumes "structure_ok s x"
    and "\<forall>t1<n_types s. \<forall>t2<n_types s. \<not> dangling s x t1 t2"
  shows "check_size_x s x = Inr True"
proof -
  have "check_type_pair s x p = Inr ()" if "p \<in> set (iter_type_pairs s)" for p
  proof -
    obtain a b where p: "p = (a, b)" by (cases p)
    from iter_type_pairs_set [OF that] have ab: "a < n_types s" "b < n_types s"
      by (simp_all add: p)
    with assms(2) have "\<not> dangling s x a b" by blast
    then show ?thesis
      unfolding p structure_pair [OF assms(1) ab] by (simp add: dangling_def)
  qed
  then have "check_type_pairs s x (iter_type_pairs s) = Inr ()"
    by (intro check_type_pairs_ok) blast
  then show ?thesis
    by (simp add: structure_prefix [OF assms(1)])
qed

theorem valid_instance_accepted_witness:
  "\<exists>s. TypedCRF_init 2 [2, 3] (Some [1, 1]) None = Inr s
     \<and> check_size_x s \<lparr>x0 = [Some (Array2 1 [[1], [2]]), Some (Array2 1 [[3], [4], [5]])],
                        x1 = [None, Some (Edges2 (Array2 2 [[0, 2], [1, 0]])), Some (Edges2 (Array2 2 [])), None]\<rparr>
         = Inr True"
proof -
  define x where "x = \<lparr>x0 = [Some (Array2 1 [[1], [2]]), Some (Array2 1 [[3], [4], [5::real]])],
                        x1 = [None, Some (Edges2 (Array2 2 [[0, 2], [1, 0]])), Some (Edges2 (Array2 2 [])), None]\<rparr>"
  obtain s where s: "TypedCRF_init 2 [2, 3] (Some [1, 1]) None = Inr s"
    using example_schema by blast
  have x: "x0 x = [Some (Array2 1 [[1], [2]]), Some (Array2 1 [[3], [4], [5]])]"
    "length (x1 x) = 4" "list_all edge_shape_ok (x1 x)"
    by (simp_all add: x_def)
  note g = example_graph [OF s x]
  have tabs: "x1 x ! 0 = None" "x1 x ! 1 = Some (Edges2 (Array2 2 [[0, 2], [1, 0]]))"
    "x1 x ! 2 = Some (Edges2 (Array2 2 []))" "x1 x ! 3 = None"
    by (simp_all add: x_def)
  have nd: "\<not> dangling s x 0 0" "\<not> dangling s x 0 1" "\<not> dangling s x 1 0" "\<not> dangling s x 1 1"
    by (simp_all add: dangling_def g(3-) tabs has_negative_def source_out_def target_out_def del: One_nat_def)
  have "\<forall>t1<n_types s. \<forall>t2<n_types s. \<not> dangling s x t1 t2"
    unfolding g(2) using nd by (auto dest!: less_2_cases)
  from valid_instance_accepted [OF g(1) this] s show ?thesis
    unfolding x_def by blast
qed

text \<open>
  Claim C8, as amended. For an instance that passes the structural checks, when the table of the
  pair \<open>(t1, t2)\<close> holds an edge with a negative endpoint, a source that is no node of type \<open>t1\<close>
  or a target that is no node of type \<open>t2\<close>, \<^verbatim>\<open>_check_size_x\<close> raises one of the three dangling-edge
  errors. The error names the first pair \<open>(a, b)\<close> in row-major order whose table holds such an
  edge, which is \<open>(t1, t2)\<close> itself when no earlier pair has one, and the check that failed there:
  a negative index (of either side, the message does not say which), else the source side, else
  the target side. The witness is the scenario of the spec: the edge \<open>(0, 99)\<close> for the pair
  \<open>(0, 1)\<close>, type 1 having three nodes, is rejected for the pair \<open>(0, 1)\<close> on the target side.
\<close>

theorem dangling_edge_rejected:
  assumes "structure_ok s x"
    and "t1 < n_types s" "t2 < n_types s"
    and "dangling s x t1 t2"
  shows "\<exists>a b. a < n_types s \<and> b < n_types s \<and> a * n_types s + b \<le> t1 * n_types s + t2
          \<and> dangling s x a b
          \<and> (\<forall>a' b'. a' < n_types s \<and> b' < n_types s \<and> a' * n_types s + b' < a * n_types s + b
                \<longrightarrow> \<not> dangling s x a' b')
          \<and> ((\<forall>a' b'. a' < n_types s \<and> b' < n_types s \<and> a' * n_types s + b' < t1 * n_types s + t2
                \<longrightarrow> \<not> dangling s x a' b') \<longrightarrow> a = t1 \<and> b = t2)
          \<and> check_size_x s x =
              Inl (ValueError
                (if has_negative (edge_table s x a b) then NegativeNodeIndex a b
                 else if source_out x a (edge_table s x a b) then StartsFromNonExisting a b
                 else PointsToNonExisting a b))"
proof -
  let ?n = "n_types s"
  let ?ps = "iter_type_pairs s"
  let ?bad = "\<lambda>k. k < ?n * ?n \<and> check_type_pair s x (?ps ! k) \<noteq> Inr ()"
  have d: "(check_type_pair s x (a, b) \<noteq> Inr ()) = dangling s x a b" if "a < ?n" "b < ?n" for a b
    unfolding structure_pair [OF assms(1) that] by (simp add: dangling_def)
  have "?bad (t1 * ?n + t2)"
    using iter_type_pairs_nth [OF assms(2,3)] d [OF assms(2,3)] assms(4) by simp
  define k where "k = (LEAST k. ?bad k)"
  have bk: "?bad k"
    unfolding k_def using \<open>?bad (t1 * ?n + t2)\<close> by (rule LeastI)
  have kle: "k \<le> t1 * ?n + t2"
    unfolding k_def using \<open>?bad (t1 * ?n + t2)\<close> by (rule Least_le)
  have before: "\<not> ?bad j" if "j < k" for j
    using that unfolding k_def by (rule not_less_Least)
  from iter_type_pairs_index [of k s] bk obtain a b where ab: "a < ?n" "b < ?n" "k = a * ?n + b"
    "?ps ! k = (a, b)" by blast
  have da: "dangling s x a b"
    using bk d [OF ab(1,2)] by (simp add: ab(4))
  have earlier: "\<not> dangling s x a' b'" if "a' < ?n" "b' < ?n" "a' * ?n + b' < a * ?n + b" for a' b'
  proof -
    have "\<not> ?bad (a' * ?n + b')"
      using that(3) by (intro before) (simp add: ab(3))
    then show ?thesis
      using iter_type_pairs_nth [OF that(1,2)] d [OF that(1,2)] by simp
  qed
  have first: "a = t1 \<and> b = t2"
    if h: "\<forall>a' b'. a' < ?n \<and> b' < ?n \<and> a' * ?n + b' < t1 * ?n + t2 \<longrightarrow> \<not> dangling s x a' b'"
  proof -
    have "\<not> a * ?n + b < t1 * ?n + t2"
      using h ab(1,2) da by blast
    with kle have "a * ?n + b = t1 * ?n + t2" by (simp add: ab(3))
    from pair_index_inj [OF ab(2) assms(3) this] show ?thesis .
  qed
  have split: "?ps = take k ?ps @ ?ps ! k # drop (Suc k) ?ps"
    using bk by (simp add: id_take_nth_drop iter_type_pairs_length)
  have pre: "\<forall>q\<in>set (take k ?ps). check_type_pair s x q = Inr ()"
  proof
    fix q assume "q \<in> set (take k ?ps)"
    then obtain j where j: "j < k" "q = ?ps ! j"
      by (auto simp: in_set_conv_nth)
    with before [OF j(1)] bk show "check_type_pair s x q = Inr ()" by simp
  qed
  let ?m = "if has_negative (edge_table s x a b) then NegativeNodeIndex a b
            else if source_out x a (edge_table s x a b) then StartsFromNonExisting a b
            else PointsToNonExisting a b"
  have at_k: "check_type_pair s x (?ps ! k) = Inl (ValueError ?m)"
    using da unfolding ab(4) structure_pair [OF assms(1) ab(1,2)] by (auto simp: dangling_def)
  have "check_type_pairs s x ?ps = Inl (ValueError ?m)"
    by (subst split) (rule check_type_pairs_first [OF pre at_k])
  then have res: "check_size_x s x = Inl (ValueError ?m)"
    by (simp add: structure_prefix [OF assms(1)])
  show ?thesis
    using ab(1,2) kle [unfolded ab(3)] da earlier first res by blast
qed

theorem dangling_edge_rejected_witness:
  "\<exists>s. TypedCRF_init 2 [2, 3] (Some [1, 1]) None = Inr s
     \<and> check_size_x s \<lparr>x0 = [Some (Array2 1 [[1], [2]]), Some (Array2 1 [[3], [4], [5]])],
                        x1 = [None, Some (Edges2 (Array2 2 [[0, 99]])), None, None]\<rparr>
         = Inl (ValueError (PointsToNonExisting 0 1))"
proof -
  define x where "x = \<lparr>x0 = [Some (Array2 1 [[1], [2]]), Some (Array2 1 [[3], [4], [5::real]])],
                        x1 = [None, Some (Edges2 (Array2 2 [[0, 99]])), None, None]\<rparr>"
  obtain s where s: "TypedCRF_init 2 [2, 3] (Some [1, 1]) None = Inr s"
    using example_schema by blast
  have x: "x0 x = [Some (Array2 1 [[1], [2]]), Some (Array2 1 [[3], [4], [5]])]"
    "length (x1 x) = 4" "list_all edge_shape_ok (x1 x)"
    by (simp_all add: x_def)
  note g = example_graph [OF s x]
  have tabs: "x1 x ! 0 = None" "x1 x ! 1 = Some (Edges2 (Array2 2 [[0, 99]]))"
    by (simp_all add: x_def)
  have d01: "dangling s x 0 1" "\<not> has_negative (edge_table s x 0 1)" "\<not> source_out x 0 (edge_table s x 0 1)"
    by (simp_all add: dangling_def g(3-) tabs has_negative_def source_out_def target_out_def del: One_nat_def)
  have d00: "\<not> dangling s x 0 0"
    by (simp add: dangling_def g(3-) tabs has_negative_def source_out_def target_out_def)
  have t: "0 < n_types s" "1 < n_types s"
    by (simp_all add: g(2))
  have first: "\<forall>a' b'. a' < n_types s \<and> b' < n_types s \<and> a' * n_types s + b' < 0 * n_types s + 1
                \<longrightarrow> \<not> dangling s x a' b'"
    using d00 by (auto simp: g(2))
  from dangling_edge_rejected [OF g(1) t d01(1)] first obtain a b where
    "a = 0 \<and> b = 1"
    "check_size_x s x = Inl (ValueError
                (if has_negative (edge_table s x a b) then NegativeNodeIndex a b
                 else if source_out x a (edge_table s x a b) then StartsFromNonExisting a b
                 else PointsToNonExisting a b))"
    by blast
  then have "check_size_x s x = Inl (ValueError (PointsToNonExisting 0 1))"
    using d01(2,3) by simp
  with s show ?thesis
    unfolding x_def by blast
qed

text \<open>
  The claim as stated covers every instance and has the error name the side. A table of the wrong
  width is reported first, whatever the edges are; and a negative source and a negative target
  raise the same error, which names the pair only.
\<close>

theorem dangling_edge_rejected_counterexample:
  "\<exists>s. TypedCRF_init 2 [2, 3] (Some [1, 1]) None = Inr s
     \<and> check_size_x s \<lparr>x0 = [Some (Array2 4 [[1, 1, 1, 1], [2, 2, 2, 2]]), Some (Array2 1 [[3], [4], [5]])],
                        x1 = [None, Some (Edges2 (Array2 2 [[0, 99]])), None, None]\<rparr>
         = Inl (ValueError (ExpectedFeatures 1 0))
     \<and> check_size_x s \<lparr>x0 = [Some (Array2 1 [[1], [2]]), Some (Array2 1 [[3], [4], [5]])],
                        x1 = [None, Some (Edges2 (Array2 2 [[- 1, 0]])), None, None]\<rparr>
         = Inl (ValueError (NegativeNodeIndex 0 1))
     \<and> check_size_x s \<lparr>x0 = [Some (Array2 1 [[1], [2]]), Some (Array2 1 [[3], [4], [5]])],
                        x1 = [None, Some (Edges2 (Array2 2 [[0, - 1]])), None, None]\<rparr>
         = Inl (ValueError (NegativeNodeIndex 0 1))"
proof -
  obtain s where s: "TypedCRF_init 2 [2, 3] (Some [1, 1]) None = Inr s"
    using example_schema by blast
  note f = init_fields [OF s]
  have fts: "l_n_features s = [1, 1]" using f(4) by simp
  have a: "check_size_x s \<lparr>x0 = [Some (Array2 4 [[1, 1, 1, 1], [2, 2, 2, 2]]), Some (Array2 1 [[3], [4], [5]])],
                        x1 = [None, Some (Edges2 (Array2 2 [[0, 99]])), None, None]\<rparr>
         = Inl (ValueError (ExpectedFeatures 1 0))"
    by (simp add: check_size_x_def f(2) fts)
  have pairs: "iter_type_pairs s = [(0, 0), (0, 1), (1, 0), (1, 1)]"
    by (simp add: iter_type_pairs_def f(2) numeral_2_eq_2)
  have b: "check_size_x s \<lparr>x0 = [Some (Array2 1 [[1], [2]]), Some (Array2 1 [[3], [4], [5]])],
                        x1 = [None, Some (Edges2 (Array2 2 [[- 1, 0]])), None, None]\<rparr>
         = Inl (ValueError (NegativeNodeIndex 0 1))"
    "check_size_x s \<lparr>x0 = [Some (Array2 1 [[1], [2]]), Some (Array2 1 [[3], [4], [5]])],
                        x1 = [None, Some (Edges2 (Array2 2 [[0, - 1]])), None, None]\<rparr>
         = Inl (ValueError (NegativeNodeIndex 0 1))"
    by (simp_all add: check_size_x_def f(2) fts pairs check_type_pair_def get_edges_by_type_def
        shape0_def column_def py_min_def)
  from s a b show ?thesis by blast
qed




end
